theory Spec2Isabelle
  imports Main "HOL-Library.Word" "HOL-Library.AList"
begin

section \<open>The in-memory group repository (package mocks, groupRepositoryMock)\<close>

text \<open>
  The repository keeps five Go maps behind one mutex. Every method takes the lock for
  its whole body, so a method is one atomic step: it is modelled as a function from the
  state before to the state after, paired with what the method returns. A method that
  fails in the middle of a batch returns the state as it has been mutated so far.
\<close>

subsection \<open>Data\<close>

text \<open>The two sentinel errors of the repository, and the run-time panic of an
  out-of-range slice read.\<close>

datatype error = ErrNotFound | ErrConflict | PanicIndexOutOfRange

type_synonym uint64 = "64 word"

text \<open>
  Modelled from the spec: the struct things.Group is declared outside the source at
  hand. Its fields are the ones the spec lists and the repository reads or writes;
  Metadata is an open bag of key/value pairs and the timestamps are instants on an
  integer time line.
\<close>

record Group =
  ID :: string
  OwnerID :: string
  Name :: string
  Description :: string
  Metadata :: "(string \<times> string) list"
  CreatedAt :: int
  UpdatedAt :: int

text \<open>
  Modelled from the spec: things.PageMetadata, things.Thing, things.Channel and the
  three page structs are declared outside the source at hand. A page request carries
  Offset and Limit, a page result carries Total; the repository builds a Thing or a
  Channel from its ID alone.
\<close>

record PageMetadata =
  Total :: uint64
  Offset :: uint64
  Limit :: uint64

record Thing =
  Thing_ID :: string

record Channel =
  Channel_ID :: string

record GroupPage =
  Groups :: "Group list"
  GroupPage_PageMetadata :: PageMetadata

record GroupThingsPage =
  Things :: "Thing list"
  GroupThingsPage_PageMetadata :: PageMetadata

record GroupChannelsPage =
  Channels :: "Channel list"
  GroupChannelsPage_PageMetadata :: PageMetadata

text \<open>The zero value of PageMetadata, as a Go composite literal leaves the fields it
  does not name.\<close>

definition zero_PageMetadata :: PageMetadata where
  "zero_PageMetadata = \<lparr>Total = 0, Offset = 0, Limit = 0\<rparr>"

text \<open>
  The state. The table of groups is enumerated by \<open>RetrieveByOwner\<close>, so it is an
  association list with one entry per key (read with \<open>map_of\<close>, written with
  \<open>AList.update\<close>, deleted from with \<open>AList.delete\<close>); the order of its entries
  stands for the order in which Go happens to range over the map. The four index maps
  are only read, written and deleted by key in the methods modelled here, so they are
  partial functions; a nil and an empty slice are both the empty list.
\<close>

record groupRepositoryMock =
  groups :: "(string \<times> Group) list"
  thingMembership :: "string \<rightharpoonup> string"
  things :: "string \<rightharpoonup> string list"
  channelMembership :: "string \<rightharpoonup> string"
  channels :: "string \<rightharpoonup> string list"

definition NewGroupRepository :: groupRepositoryMock where
  "NewGroupRepository =
     \<lparr>groups = [], thingMembership = Map.empty, things = Map.empty,
      channelMembership = Map.empty, channels = Map.empty\<rparr>"

subsection \<open>Go map and slice primitives\<close>

text \<open>Reading a map of slices at a key: the nil slice when the key is absent.\<close>

definition slice_at :: "(string \<rightharpoonup> string list) \<Rightarrow> string \<Rightarrow> string list" where
  "slice_at m k = (case m k of None \<Rightarrow> [] | Some xs \<Rightarrow> xs)"

text \<open>The loop \<open>for _, k := range ks { delete(m, k) }\<close>.\<close>

fun delete_each :: "string list \<Rightarrow> (string \<rightharpoonup> string) \<Rightarrow> (string \<rightharpoonup> string)" where
  "delete_each [] m = m"
| "delete_each (k # ks) m = delete_each ks (m(k := None))"

text \<open>The scan \<open>for i, x := range xs { if x == k { ...; break } }\<close>: the index at which
  the body runs, if it runs.\<close>

fun first_index :: "string \<Rightarrow> string list \<Rightarrow> nat option" where
  "first_index k [] = None"
| "first_index k (x # xs) = (if x = k then Some 0 else map_option Suc (first_index k xs))"

text \<open>The slice expression \<open>append(xs[:i], xs[i+1:]...)\<close>.\<close>

definition cut_at :: "nat \<Rightarrow> string list \<Rightarrow> string list" where
  "cut_at i xs = take i xs @ drop (Suc i) xs"

subsection \<open>Group lifecycle\<close>

definition Save :: "groupRepositoryMock \<Rightarrow> Group \<Rightarrow> groupRepositoryMock \<times> (error + Group)" where
  "Save grm grp =
     (case map_of (groups grm) (ID grp) of
        Some _ \<Rightarrow> (grm, Inl ErrConflict)
      | None \<Rightarrow> (grm\<lparr>groups := AList.update (ID grp) grp (groups grm)\<rparr>, Inr grp))"

text \<open>\<open>now\<close> is the value \<open>time.Now()\<close> returns during the call.\<close>

definition Update ::
  "groupRepositoryMock \<Rightarrow> int \<Rightarrow> Group \<Rightarrow> groupRepositoryMock \<times> (error + Group)" where
  "Update grm now grp =
     (case map_of (groups grm) (ID grp) of
        None \<Rightarrow> (grm, Inl ErrNotFound)
      | Some up \<Rightarrow>
          (let up' = up\<lparr>Name := Name grp, Description := Description grp,
                         Metadata := Metadata grp, UpdatedAt := now\<rparr>
           in (grm\<lparr>groups := AList.update (ID grp) up' (groups grm)\<rparr>, Inr up')))"

fun Remove :: "groupRepositoryMock \<Rightarrow> string list \<Rightarrow> groupRepositoryMock \<times> error option" where
  "Remove grm [] = (grm, None)"
| "Remove grm (gid # ids) =
     (case map_of (groups grm) gid of
        None \<Rightarrow> (grm, Some ErrNotFound)
      | Some _ \<Rightarrow>
          Remove
            (grm\<lparr>thingMembership := delete_each (slice_at (things grm) gid) (thingMembership grm),
                 channelMembership :=
                   delete_each (slice_at (channels grm) gid) (channelMembership grm),
                 groups := AList.delete gid (groups grm)\<rparr>)
            ids)"

definition RetrieveByID :: "groupRepositoryMock \<Rightarrow> string \<Rightarrow> error + Group" where
  "RetrieveByID grm gid =
     (case map_of (groups grm) gid of None \<Rightarrow> Inl ErrNotFound | Some val \<Rightarrow> Inr val)"

text \<open>The body reads neither \<open>ownerID\<close> nor \<open>pm\<close>.\<close>

definition RetrieveByOwner ::
  "groupRepositoryMock \<Rightarrow> string \<Rightarrow> PageMetadata \<Rightarrow> error + GroupPage" where
  "RetrieveByOwner grm ownerID pm =
     (let items = map snd (groups grm)
      in Inr \<lparr>Groups = items,
              GroupPage_PageMetadata = zero_PageMetadata\<lparr>Total := of_nat (length items)\<rparr>\<rparr>)"

subsection \<open>Assignment and unassignment of things\<close>

fun AssignThing_loop :: "groupRepositoryMock \<Rightarrow> string \<Rightarrow> string list \<Rightarrow> groupRepositoryMock" where
  "AssignThing_loop grm groupID [] = grm"
| "AssignThing_loop grm groupID (thingID # rest) =
     AssignThing_loop
       (grm\<lparr>things := (things grm)(groupID \<mapsto> slice_at (things grm) groupID @ [thingID]),
            thingMembership := (thingMembership grm)(thingID \<mapsto> groupID)\<rparr>)
       groupID rest"

definition AssignThing ::
  "groupRepositoryMock \<Rightarrow> string \<Rightarrow> string list \<Rightarrow> groupRepositoryMock \<times> error option" where
  "AssignThing grm groupID thingIDs =
     (case map_of (groups grm) groupID of
        None \<Rightarrow> (grm, Some ErrNotFound)
      | Some _ \<Rightarrow>
          (let grm1 = (case things grm groupID of
                         None \<Rightarrow> grm\<lparr>things := (things grm)(groupID \<mapsto> [])\<rparr>
                       | Some _ \<Rightarrow> grm)
           in (AssignThing_loop grm1 groupID thingIDs, None)))"

fun UnassignThing_loop ::
  "groupRepositoryMock \<Rightarrow> string \<Rightarrow> string list \<Rightarrow> groupRepositoryMock \<times> error option" where
  "UnassignThing_loop grm groupID [] = (grm, None)"
| "UnassignThing_loop grm groupID (thingID # rest) =
     (case things grm groupID of
        None \<Rightarrow> (grm, Some ErrNotFound)
      | Some ths \<Rightarrow>
          UnassignThing_loop
            (case first_index thingID ths of
               None \<Rightarrow> grm
             | Some i \<Rightarrow>
                 grm\<lparr>things := (things grm)(groupID \<mapsto> cut_at i ths),
                     thingMembership := (thingMembership grm)(thingID := None)\<rparr>)
            groupID rest)"

definition UnassignThing ::
  "groupRepositoryMock \<Rightarrow> string \<Rightarrow> string list \<Rightarrow> groupRepositoryMock \<times> error option" where
  "UnassignThing grm groupID thingIDs =
     (case map_of (groups grm) groupID of
        None \<Rightarrow> (grm, Some ErrNotFound)
      | Some _ \<Rightarrow> UnassignThing_loop grm groupID thingIDs)"

definition RetrieveThingMembership :: "groupRepositoryMock \<Rightarrow> string \<Rightarrow> error + string" where
  "RetrieveThingMembership grm thingID =
     (case thingMembership grm thingID of
        None \<Rightarrow> Inl ErrNotFound
      | Some groupID \<Rightarrow> Inr groupID)"

subsection \<open>Assignment and unassignment of channels\<close>

text \<open>\<open>AssignChannel\<close> does not create the empty entry that \<open>AssignThing\<close> creates
  before its loop.\<close>

fun AssignChannel_loop :: "groupRepositoryMock \<Rightarrow> string \<Rightarrow> string list \<Rightarrow> groupRepositoryMock" where
  "AssignChannel_loop grm groupID [] = grm"
| "AssignChannel_loop grm groupID (channelID # rest) =
     AssignChannel_loop
       (grm\<lparr>channels := (channels grm)(groupID \<mapsto> slice_at (channels grm) groupID @ [channelID]),
            channelMembership := (channelMembership grm)(channelID \<mapsto> groupID)\<rparr>)
       groupID rest"

definition AssignChannel ::
  "groupRepositoryMock \<Rightarrow> string \<Rightarrow> string list \<Rightarrow> groupRepositoryMock \<times> error option" where
  "AssignChannel grm groupID channelIDs =
     (case map_of (groups grm) groupID of
        None \<Rightarrow> (grm, Some ErrNotFound)
      | Some _ \<Rightarrow> (AssignChannel_loop grm groupID channelIDs, None))"

fun UnassignChannel_loop ::
  "groupRepositoryMock \<Rightarrow> string \<Rightarrow> string list \<Rightarrow> groupRepositoryMock \<times> error option" where
  "UnassignChannel_loop grm groupID [] = (grm, None)"
| "UnassignChannel_loop grm groupID (channelID # rest) =
     (case channels grm groupID of
        None \<Rightarrow> (grm, Some ErrNotFound)
      | Some chs \<Rightarrow>
          UnassignChannel_loop
            (case first_index channelID chs of
               None \<Rightarrow> grm
             | Some i \<Rightarrow>
                 grm\<lparr>channels := (channels grm)(groupID \<mapsto> cut_at i chs),
                     channelMembership := (channelMembership grm)(channelID := None)\<rparr>)
            groupID rest)"

definition UnassignChannel ::
  "groupRepositoryMock \<Rightarrow> string \<Rightarrow> string list \<Rightarrow> groupRepositoryMock \<times> error option" where
  "UnassignChannel grm groupID channelIDs =
     (case map_of (groups grm) groupID of
        None \<Rightarrow> (grm, Some ErrNotFound)
      | Some _ \<Rightarrow> UnassignChannel_loop grm groupID channelIDs)"

definition RetrieveChannelMembership :: "groupRepositoryMock \<Rightarrow> string \<Rightarrow> error + string" where
  "RetrieveChannelMembership grm channelID =
     (case channelMembership grm channelID of
        None \<Rightarrow> Inl ErrNotFound
      | Some groupID \<Rightarrow> Inr groupID)"

subsection \<open>Paginated membership queries\<close>

text \<open>
  The loop \<open>for i := first; i < last; i++ { items = append(items, mk(ids[i])) }\<close> on
  unsigned 64-bit counters. Reading \<open>ids[i]\<close> beyond the slice panics. Both
  queries run this loop, one building things and one building channels.
\<close>

function page_loop ::
  "(string \<Rightarrow> 'a) \<Rightarrow> string list \<Rightarrow> uint64 \<Rightarrow> uint64 \<Rightarrow> 'a list \<Rightarrow> error + 'a list" where
  "page_loop mk ids i last' items =
     (if i < last' then
        (if unat i < length ids
         then page_loop mk ids (i + 1) last' (items @ [mk (ids ! unat i)])
         else Inl PanicIndexOutOfRange)
      else Inr items)"
  by pat_completeness auto
termination
proof (relation "measure (\<lambda>(mk, ids, i, last', items). unat last' - unat i)")
  show "wf (measure (\<lambda>(mk, ids, i, last', items). unat last' - unat i))"
    by simp
next
  fix mk :: "string \<Rightarrow> 'a" and ids :: "string list" and i last' :: uint64 and items :: "'a list"
  assume lt: "i < last'"
  then have below: "unat i < unat last'"
    by (simp add: word_less_nat_alt)
  moreover have "unat last' < 2 ^ 64"
    using unsigned_less [of last', where 'a = nat] by simp
  ultimately have "unat i + unat (1 :: uint64) < 2 ^ LENGTH(64)"
    by simp
  then have "unat (i + 1) = unat i + unat (1 :: uint64)"
    by (simp only: unat_add_lem)
  with below show
    "((mk, ids, i + 1, last', items @ [mk (ids ! unat i)]), (mk, ids, i, last', items))
       \<in> measure (\<lambda>(mk, ids, i, last', items). unat last' - unat i)"
    by simp
qed

declare page_loop.simps [simp del]

text \<open>\<open>first\<close>, \<open>last\<close> and the clamp of \<open>last\<close> to the length of the slice; the
  addition wraps around at \<open>2 ^ 64\<close>.\<close>

definition page_last :: "PageMetadata \<Rightarrow> string list \<Rightarrow> uint64" where
  "page_last pm ids =
     (let first = Offset pm;
          last' = first + Limit pm
      in if last' > of_nat (length ids) then of_nat (length ids) else last')"

definition RetrieveGroupThings ::
  "groupRepositoryMock \<Rightarrow> string \<Rightarrow> string \<Rightarrow> PageMetadata \<Rightarrow> error + GroupThingsPage" where
  "RetrieveGroupThings grm ownerID groupID pm =
     (case things grm groupID of
        None \<Rightarrow> Inl ErrNotFound
      | Some ths \<Rightarrow>
          (case page_loop (\<lambda>x. \<lparr>Thing_ID = x\<rparr>) ths (Offset pm) (page_last pm ths) [] of
             Inl e \<Rightarrow> Inl e
           | Inr items \<Rightarrow>
               Inr \<lparr>Things = items,
                    GroupThingsPage_PageMetadata =
                      zero_PageMetadata\<lparr>Total := of_nat (length items)\<rparr>\<rparr>))"

definition RetrieveGroupChannels ::
  "groupRepositoryMock \<Rightarrow> string \<Rightarrow> string \<Rightarrow> PageMetadata \<Rightarrow> error + GroupChannelsPage" where
  "RetrieveGroupChannels grm ownerID groupID pm =
     (case channels grm groupID of
        None \<Rightarrow> Inr \<lparr>Channels = [], GroupChannelsPage_PageMetadata = zero_PageMetadata\<rparr>
      | Some chs \<Rightarrow>
          (case page_loop (\<lambda>x. \<lparr>Channel_ID = x\<rparr>) chs (Offset pm) (page_last pm chs) [] of
             Inl e \<Rightarrow> Inl e
           | Inr items \<Rightarrow>
               Inr \<lparr>Channels = items,
                    GroupChannelsPage_PageMetadata =
                      zero_PageMetadata\<lparr>Total := of_nat (length items)\<rparr>\<rparr>))"

subsection \<open>Example repositories\<close>

text \<open>Two groups with different owners, and the repositories that the methods above
  build from them; the closed theorems below run the methods on these.\<close>

definition group_G1 :: Group where
  "group_G1 =
     \<lparr>ID = ''G1'', OwnerID = ''alice'', Name = ''plant'', Description = ''sensors'',
      Metadata = [], CreatedAt = 100, UpdatedAt = 100\<rparr>"

definition group_G2 :: Group where
  "group_G2 =
     \<lparr>ID = ''G2'', OwnerID = ''bob'', Name = ''depot'', Description = ''trackers'',
      Metadata = [(''site'', ''north'')], CreatedAt = 200, UpdatedAt = 200\<rparr>"

definition repo_two_groups :: groupRepositoryMock where
  "repo_two_groups = fst (Save (fst (Save NewGroupRepository group_G1)) group_G2)"

definition repo_assigned :: groupRepositoryMock where
  "repo_assigned = fst (AssignThing repo_two_groups ''G1'' [''T1'', ''T2'', ''T3''])"

definition repo_full :: groupRepositoryMock where
  "repo_full = fst (AssignChannel repo_assigned ''G1'' [''C1'', ''C2''])"

text \<open>A third group, not stored in any of the example repositories.\<close>

definition group_G3 :: Group where
  "group_G3 =
     \<lparr>ID = ''G3'', OwnerID = ''alice'', Name = ''yard'', Description = ''gates'',
      Metadata = [], CreatedAt = 300, UpdatedAt = 300\<rparr>"

text \<open>A repository in which one thing occurs twice in a forward sequence and has no
  reverse entry: T1 is assigned to G1 twice in one batch, then to G2, then unassigned
  from G2.\<close>

definition repo_twice :: groupRepositoryMock where
  "repo_twice =
     fst (UnassignThing
            (fst (AssignThing (fst (AssignThing repo_two_groups ''G1'' [''T1'', ''T1'']))
                    ''G2'' [''T1'']))
            ''G2'' [''T1''])"

subsection \<open>The two-sided index: invariants and reachable states\<close>

text \<open>
  One resource kind has a forward index (group ID to sequence of resource IDs, read
  with \<open>slice_at\<close>) and a reverse index (resource ID to group ID). \<open>index_inv\<close> is the
  invariant of the data model: a resource ID has the reverse entry \<open>g\<close> exactly when it
  occurs exactly once in the forward sequence of \<open>g\<close>. \<open>repo_inv\<close> asks it of both
  resource kinds.
\<close>

definition index_inv :: "(string \<Rightarrow> string list) \<Rightarrow> (string \<rightharpoonup> string) \<Rightarrow> bool" where
  "index_inv fwd bwd \<longleftrightarrow> (\<forall>r g. bwd r = Some g \<longleftrightarrow> count_list (fwd g) r = 1)"

definition repo_inv :: "groupRepositoryMock \<Rightarrow> bool" where
  "repo_inv grm \<longleftrightarrow>
     index_inv (slice_at (things grm)) (thingMembership grm) \<and>
     index_inv (slice_at (channels grm)) (channelMembership grm)"

text \<open>The weaker half that survives every method: a reverse entry is backed by an
  occurrence in the forward sequence it names.\<close>

definition backed :: "(string \<Rightarrow> string list) \<Rightarrow> (string \<rightharpoonup> string) \<Rightarrow> bool" where
  "backed fwd bwd \<longleftrightarrow> (\<forall>r g. bwd r = Some g \<longrightarrow> r \<in> set (fwd g))"

definition repo_backed :: "groupRepositoryMock \<Rightarrow> bool" where
  "repo_backed grm \<longleftrightarrow>
     backed (slice_at (things grm)) (thingMembership grm) \<and>
     backed (slice_at (channels grm)) (channelMembership grm)"

text \<open>The states the repository can be in: the empty repository, closed under the seven
  mutating methods called with any arguments, whether the call succeeds or fails.\<close>

inductive reachable :: "groupRepositoryMock \<Rightarrow> bool" where
  reach_New: "reachable NewGroupRepository"
| reach_Save: "reachable grm \<Longrightarrow> reachable (fst (Save grm grp))"
| reach_Update: "reachable grm \<Longrightarrow> reachable (fst (Update grm now grp))"
| reach_Remove: "reachable grm \<Longrightarrow> reachable (fst (Remove grm ids))"
| reach_AssignThing: "reachable grm \<Longrightarrow> reachable (fst (AssignThing grm groupID thingIDs))"
| reach_UnassignThing: "reachable grm \<Longrightarrow> reachable (fst (UnassignThing grm groupID thingIDs))"
| reach_AssignChannel: "reachable grm \<Longrightarrow> reachable (fst (AssignChannel grm groupID channelIDs))"
| reach_UnassignChannel:
    "reachable grm \<Longrightarrow> reachable (fst (UnassignChannel grm groupID channelIDs))"

section \<open>Properties\<close>

subsection \<open>The example repositories, evaluated\<close>

lemma repo_two_groups_eq:
  "repo_two_groups =
     \<lparr>groups = [(''G1'', group_G1), (''G2'', group_G2)],
      thingMembership = Map.empty, things = Map.empty,
      channelMembership = Map.empty, channels = Map.empty\<rparr>"
  by (simp add: repo_two_groups_def Save_def NewGroupRepository_def group_G1_def group_G2_def)

lemma repo_assigned_eq:
  "repo_assigned =
     \<lparr>groups = [(''G1'', group_G1), (''G2'', group_G2)],
      thingMembership = [''T1'' \<mapsto> ''G1'', ''T2'' \<mapsto> ''G1'', ''T3'' \<mapsto> ''G1''],
      things = [''G1'' \<mapsto> [''T1'', ''T2'', ''T3'']],
      channelMembership = Map.empty, channels = Map.empty\<rparr>"
  by (simp add: repo_assigned_def repo_two_groups_eq AssignThing_def slice_at_def)

lemma repo_full_eq:
  "repo_full =
     \<lparr>groups = [(''G1'', group_G1), (''G2'', group_G2)],
      thingMembership = [''T1'' \<mapsto> ''G1'', ''T2'' \<mapsto> ''G1'', ''T3'' \<mapsto> ''G1''],
      things = [''G1'' \<mapsto> [''T1'', ''T2'', ''T3'']],
      channelMembership = [''C1'' \<mapsto> ''G1'', ''C2'' \<mapsto> ''G1''],
      channels = [''G1'' \<mapsto> [''C1'', ''C2'']]\<rparr>"
  by (simp add: repo_full_def repo_assigned_eq AssignChannel_def slice_at_def)

lemma reachable_repo_full: "reachable repo_full"
  unfolding repo_full_def repo_assigned_def repo_two_groups_def
  by (intro reachable.intros)

lemma repo_twice_eq:
  "repo_twice =
     \<lparr>groups = [(''G1'', group_G1), (''G2'', group_G2)],
      thingMembership = Map.empty,
      things = [''G1'' \<mapsto> [''T1'', ''T1''], ''G2'' \<mapsto> []],
      channelMembership = Map.empty, channels = Map.empty\<rparr>"
  by (simp add: repo_twice_def repo_two_groups_eq AssignThing_def UnassignThing_def
      slice_at_def cut_at_def)

lemma reachable_repo_assigned: "reachable repo_assigned"
  unfolding repo_assigned_def repo_two_groups_def
  by (intro reachable.intros)

lemma reachable_repo_twice: "reachable repo_twice"
  unfolding repo_twice_def repo_two_groups_def
  by (intro reachable.intros)

lemma repo_inv_repo_assigned: "repo_inv repo_assigned"
  by (auto simp: repo_inv_def index_inv_def repo_assigned_eq slice_at_def split: if_splits)

lemma repo_inv_repo_full: "repo_inv repo_full"
  by (auto simp: repo_inv_def index_inv_def repo_full_eq slice_at_def split: if_splits)

lemma repo_inv_repo_twice: "repo_inv repo_twice"
  by (auto simp: repo_inv_def index_inv_def repo_twice_eq slice_at_def split: if_splits)

lemma reachable_repo_two_groups: "reachable repo_two_groups"
  unfolding repo_two_groups_def by (intro reachable.intros)

subsection \<open>Go primitives\<close>

lemma delete_each_apply: "delete_each ks m k = (if k \<in> set ks then None else m k)"
  by (induction ks arbitrary: m) auto

lemma first_index_None: "first_index k xs = None \<longleftrightarrow> k \<notin> set xs"
  by (induction xs) auto

lemma first_index_Some:
  "first_index k xs = Some i \<Longrightarrow> cut_at i xs = remove1 k xs"
  by (induction xs arbitrary: i) (auto simp: cut_at_def split: if_splits)

lemma first_index_split:
  "k \<notin> set pre \<Longrightarrow> first_index k (pre @ k # post) = Some (length pre)"
  by (induction pre) auto

lemma cut_at_split: "cut_at (length pre) (pre @ k # post) = pre @ post"
  by (simp add: cut_at_def)

lemma count_list_remove1:
  "count_list (remove1 a xs) r = (if a = r then count_list xs r - 1 else count_list xs r)"
  by (induction xs) auto

lemma count_list_fold_remove1:
  "count_list (fold remove1 ts xs) r = count_list xs r - count_list ts r"
  by (induction ts arbitrary: xs) (auto simp: count_list_remove1)

lemma fold_remove1_Nil: "fold remove1 ts [] = []"
  by (induction ts) auto

subsection \<open>The assignment loops in closed form\<close>

lemma AssignThing_loop_frame:
  "groups (AssignThing_loop grm g ts) = groups grm"
  "channels (AssignThing_loop grm g ts) = channels grm"
  "channelMembership (AssignThing_loop grm g ts) = channelMembership grm"
  by (induction ts arbitrary: grm) auto

lemma AssignThing_loop_things_other:
  "g' \<noteq> g \<Longrightarrow> things (AssignThing_loop grm g ts) g' = things grm g'"
  by (induction ts arbitrary: grm) auto

lemma AssignThing_loop_things_same:
  "things grm g = Some xs \<Longrightarrow> things (AssignThing_loop grm g ts) g = Some (xs @ ts)"
  by (induction ts arbitrary: grm xs) (auto simp: slice_at_def)

lemma AssignThing_loop_membership:
  "thingMembership (AssignThing_loop grm g ts) t =
     (if t \<in> set ts then Some g else thingMembership grm t)"
  by (induction ts arbitrary: grm) auto

lemma AssignThing_index:
  assumes "map_of (groups grm) g \<noteq> None"
  shows "slice_at (things (fst (AssignThing grm g ts))) g' =
      (if g' = g then slice_at (things grm) g @ ts else slice_at (things grm) g')"
    and "thingMembership (fst (AssignThing grm g ts)) t =
      (if t \<in> set ts then Some g else thingMembership grm t)"
    and "channels (fst (AssignThing grm g ts)) = channels grm"
    and "channelMembership (fst (AssignThing grm g ts)) = channelMembership grm"
proof -
  define grm1 where
    "grm1 = (case things grm g of
               None \<Rightarrow> grm\<lparr>things := (things grm)(g \<mapsto> [])\<rparr>
             | Some _ \<Rightarrow> grm)"
  have run: "fst (AssignThing grm g ts) = AssignThing_loop grm1 g ts"
    using assms by (auto simp: AssignThing_def grm1_def)
  have at: "things grm1 g = Some (slice_at (things grm) g)"
    by (simp add: grm1_def slice_at_def split: option.splits)
  have other: "g' \<noteq> g \<Longrightarrow> things grm1 g' = things grm g'"
    by (simp add: grm1_def split: option.splits)
  have frame: "channels grm1 = channels grm"
    "channelMembership grm1 = channelMembership grm"
    "thingMembership grm1 = thingMembership grm"
    by (simp_all add: grm1_def split: option.splits)
  show "slice_at (things (fst (AssignThing grm g ts))) g' =
      (if g' = g then slice_at (things grm) g @ ts else slice_at (things grm) g')"
    using at other
    by (cases "g' = g")
      (simp_all add: run slice_at_def AssignThing_loop_things_same AssignThing_loop_things_other)
  show "thingMembership (fst (AssignThing grm g ts)) t =
      (if t \<in> set ts then Some g else thingMembership grm t)"
    by (simp add: run AssignThing_loop_membership frame)
  show "channels (fst (AssignThing grm g ts)) = channels grm"
    "channelMembership (fst (AssignThing grm g ts)) = channelMembership grm"
    by (simp_all add: run AssignThing_loop_frame frame)
qed

lemma AssignThing_error:
  "map_of (groups grm) g = None \<Longrightarrow> fst (AssignThing grm g ts) = grm"
  by (simp add: AssignThing_def)

lemma AssignChannel_loop_frame:
  "groups (AssignChannel_loop grm g cs) = groups grm"
  "things (AssignChannel_loop grm g cs) = things grm"
  "thingMembership (AssignChannel_loop grm g cs) = thingMembership grm"
  by (induction cs arbitrary: grm) auto

lemma AssignChannel_loop_slice:
  "slice_at (channels (AssignChannel_loop grm g cs)) g' =
     (if g' = g then slice_at (channels grm) g @ cs else slice_at (channels grm) g')"
  by (induction cs arbitrary: grm) (auto simp: slice_at_def)

lemma AssignChannel_loop_membership:
  "channelMembership (AssignChannel_loop grm g cs) c =
     (if c \<in> set cs then Some g else channelMembership grm c)"
  by (induction cs arbitrary: grm) auto

lemma AssignChannel_index:
  assumes "map_of (groups grm) g \<noteq> None"
  shows "slice_at (channels (fst (AssignChannel grm g cs))) g' =
      (if g' = g then slice_at (channels grm) g @ cs else slice_at (channels grm) g')"
    and "channelMembership (fst (AssignChannel grm g cs)) c =
      (if c \<in> set cs then Some g else channelMembership grm c)"
    and "things (fst (AssignChannel grm g cs)) = things grm"
    and "thingMembership (fst (AssignChannel grm g cs)) = thingMembership grm"
  using assms
  by (auto simp: AssignChannel_def AssignChannel_loop_frame AssignChannel_loop_slice
      AssignChannel_loop_membership)

lemma AssignChannel_error:
  "map_of (groups grm) g = None \<Longrightarrow> fst (AssignChannel grm g ts) = grm"
  by (simp add: AssignChannel_def)

subsection \<open>The unassignment loops in closed form\<close>

lemma UnassignThing_loop_closed:
  "things grm g = Some ths \<Longrightarrow>
   \<exists>grm'. UnassignThing_loop grm g ts = (grm', None) \<and>
     things grm' g = Some (fold remove1 ts ths) \<and>
     (\<forall>g'. g' \<noteq> g \<longrightarrow> things grm' g' = things grm g') \<and>
     (\<forall>t. thingMembership grm' t =
        (if t \<in> set ts \<and> t \<in> set ths then None else thingMembership grm t)) \<and>
     groups grm' = groups grm \<and> channels grm' = channels grm \<and>
     channelMembership grm' = channelMembership grm"
proof (induction ts arbitrary: grm ths)
  case Nil
  then show ?case by simp
next
  case (Cons a ts)
  show ?case
  proof (cases "first_index a ths")
    case None
    then have out: "a \<notin> set ths" by (simp add: first_index_None)
    from None Cons.prems have "UnassignThing_loop grm g (a # ts) = UnassignThing_loop grm g ts"
      by simp
    moreover from out have "fold remove1 (a # ts) ths = fold remove1 ts ths"
      by (simp add: remove1_idem)
    ultimately show ?thesis
      using Cons.IH [OF Cons.prems] out by auto
  next
    case (Some i)
    then have "first_index a ths \<noteq> None" by simp
    then have inn: "a \<in> set ths" by (simp add: first_index_None)
    define grm1 where "grm1 = grm\<lparr>things := (things grm)(g \<mapsto> remove1 a ths),
                     thingMembership := (thingMembership grm)(a := None)\<rparr>"
    from Some Cons.prems have "UnassignThing_loop grm g (a # ts) = UnassignThing_loop grm1 g ts"
      by (simp add: grm1_def first_index_Some)
    moreover have "things grm1 g = Some (remove1 a ths)" by (simp add: grm1_def)
    from Cons.IH [OF this] obtain grm' where
      "UnassignThing_loop grm1 g ts = (grm', None)"
      "things grm' g = Some (fold remove1 ts (remove1 a ths))"
      "\<forall>g'. g' \<noteq> g \<longrightarrow> things grm' g' = things grm1 g'"
      "\<forall>t. thingMembership grm' t =
        (if t \<in> set ts \<and> t \<in> set (remove1 a ths) then None else thingMembership grm1 t)"
      "groups grm' = groups grm1" "channels grm' = channels grm1"
      "channelMembership grm' = channelMembership grm1"
      by blast
    ultimately show ?thesis
      using inn by (auto simp: grm1_def dest: notin_set_remove1)
  qed
qed

lemma UnassignThing_index:
  assumes "map_of (groups grm) g \<noteq> None"
  shows "slice_at (things (fst (UnassignThing grm g ts))) g' =
      (if g' = g then fold remove1 ts (slice_at (things grm) g) else slice_at (things grm) g')"
    and "thingMembership (fst (UnassignThing grm g ts)) t =
      (if t \<in> set ts \<and> t \<in> set (slice_at (things grm) g) then None
       else thingMembership grm t)"
    and "channels (fst (UnassignThing grm g ts)) = channels grm"
    and "channelMembership (fst (UnassignThing grm g ts)) = channelMembership grm"
proof -
  have "(slice_at (things (fst (UnassignThing grm g ts))) g' =
      (if g' = g then fold remove1 ts (slice_at (things grm) g) else slice_at (things grm) g')) \<and>
    (thingMembership (fst (UnassignThing grm g ts)) t =
      (if t \<in> set ts \<and> t \<in> set (slice_at (things grm) g) then None
       else thingMembership grm t)) \<and>
    channels (fst (UnassignThing grm g ts)) = channels grm \<and>
    channelMembership (fst (UnassignThing grm g ts)) = channelMembership grm"
  proof (cases "things grm g")
    case None
    then have "fst (UnassignThing grm g ts) = grm"
      using assms by (cases ts) (auto simp: UnassignThing_def)
    moreover have "slice_at (things grm) g = []"
      using None by (simp add: slice_at_def)
    ultimately show ?thesis
      by (simp add: fold_remove1_Nil)
  next
    case (Some ths)
    from UnassignThing_loop_closed [OF Some, of ts] obtain grm' where
      run: "UnassignThing_loop grm g ts = (grm', None)" and
      same: "things grm' g = Some (fold remove1 ts ths)" and
      other: "\<forall>g'. g' \<noteq> g \<longrightarrow> things grm' g' = things grm g'" and
      mem: "\<forall>t. thingMembership grm' t =
          (if t \<in> set ts \<and> t \<in> set ths then None else thingMembership grm t)" and
      frame: "channels grm' = channels grm" "channelMembership grm' = channelMembership grm"
      by blast
    have fst: "fst (UnassignThing grm g ts) = grm'"
      using assms run by (auto simp: UnassignThing_def)
    have at: "slice_at (things grm) g = ths"
      using Some by (simp add: slice_at_def)
    have "slice_at (things grm') g' =
        (if g' = g then fold remove1 ts (slice_at (things grm) g) else slice_at (things grm) g')"
      using same other at by (cases "g' = g") (simp_all add: slice_at_def)
    then show ?thesis
      using fst frame mem at by simp
  qed
  then show "slice_at (things (fst (UnassignThing grm g ts))) g' =
      (if g' = g then fold remove1 ts (slice_at (things grm) g) else slice_at (things grm) g')"
    and "thingMembership (fst (UnassignThing grm g ts)) t =
      (if t \<in> set ts \<and> t \<in> set (slice_at (things grm) g) then None
       else thingMembership grm t)"
    and "channels (fst (UnassignThing grm g ts)) = channels grm"
    and "channelMembership (fst (UnassignThing grm g ts)) = channelMembership grm"
    by simp_all
qed

lemma UnassignThing_error:
  "map_of (groups grm) g = None \<Longrightarrow> fst (UnassignThing grm g ts) = grm"
  by (simp add: UnassignThing_def)

lemma UnassignChannel_loop_closed:
  "channels grm g = Some chs \<Longrightarrow>
   \<exists>grm'. UnassignChannel_loop grm g ts = (grm', None) \<and>
     channels grm' g = Some (fold remove1 ts chs) \<and>
     (\<forall>g'. g' \<noteq> g \<longrightarrow> channels grm' g' = channels grm g') \<and>
     (\<forall>t. channelMembership grm' t =
        (if t \<in> set ts \<and> t \<in> set chs then None else channelMembership grm t)) \<and>
     groups grm' = groups grm \<and> things grm' = things grm \<and>
     thingMembership grm' = thingMembership grm"
proof (induction ts arbitrary: grm chs)
  case Nil
  then show ?case by simp
next
  case (Cons a ts)
  show ?case
  proof (cases "first_index a chs")
    case None
    then have out: "a \<notin> set chs" by (simp add: first_index_None)
    from None Cons.prems have "UnassignChannel_loop grm g (a # ts) = UnassignChannel_loop grm g ts"
      by simp
    moreover from out have "fold remove1 (a # ts) chs = fold remove1 ts chs"
      by (simp add: remove1_idem)
    ultimately show ?thesis
      using Cons.IH [OF Cons.prems] out by auto
  next
    case (Some i)
    then have "first_index a chs \<noteq> None" by simp
    then have inn: "a \<in> set chs" by (simp add: first_index_None)
    define grm1 where "grm1 = grm\<lparr>channels := (channels grm)(g \<mapsto> remove1 a chs),
                     channelMembership := (channelMembership grm)(a := None)\<rparr>"
    from Some Cons.prems have "UnassignChannel_loop grm g (a # ts) = UnassignChannel_loop grm1 g ts"
      by (simp add: grm1_def first_index_Some)
    moreover have "channels grm1 g = Some (remove1 a chs)" by (simp add: grm1_def)
    from Cons.IH [OF this] obtain grm' where
      "UnassignChannel_loop grm1 g ts = (grm', None)"
      "channels grm' g = Some (fold remove1 ts (remove1 a chs))"
      "\<forall>g'. g' \<noteq> g \<longrightarrow> channels grm' g' = channels grm1 g'"
      "\<forall>t. channelMembership grm' t =
        (if t \<in> set ts \<and> t \<in> set (remove1 a chs) then None else channelMembership grm1 t)"
      "groups grm' = groups grm1" "things grm' = things grm1"
      "thingMembership grm' = thingMembership grm1"
      by blast
    ultimately show ?thesis
      using inn by (auto simp: grm1_def dest: notin_set_remove1)
  qed
qed

lemma UnassignChannel_index:
  assumes "map_of (groups grm) g \<noteq> None"
  shows "slice_at (channels (fst (UnassignChannel grm g ts))) g' =
      (if g' = g then fold remove1 ts (slice_at (channels grm) g) else slice_at (channels grm) g')"
    and "channelMembership (fst (UnassignChannel grm g ts)) t =
      (if t \<in> set ts \<and> t \<in> set (slice_at (channels grm) g) then None
       else channelMembership grm t)"
    and "things (fst (UnassignChannel grm g ts)) = things grm"
    and "thingMembership (fst (UnassignChannel grm g ts)) = thingMembership grm"
proof -
  have "(slice_at (channels (fst (UnassignChannel grm g ts))) g' =
      (if g' = g then fold remove1 ts (slice_at (channels grm) g) else slice_at (channels grm) g')) \<and>
    (channelMembership (fst (UnassignChannel grm g ts)) t =
      (if t \<in> set ts \<and> t \<in> set (slice_at (channels grm) g) then None
       else channelMembership grm t)) \<and>
    things (fst (UnassignChannel grm g ts)) = things grm \<and>
    thingMembership (fst (UnassignChannel grm g ts)) = thingMembership grm"
  proof (cases "channels grm g")
    case None
    then have "fst (UnassignChannel grm g ts) = grm"
      using assms by (cases ts) (auto simp: UnassignChannel_def)
    moreover have "slice_at (channels grm) g = []"
      using None by (simp add: slice_at_def)
    ultimately show ?thesis
      by (simp add: fold_remove1_Nil)
  next
    case (Some chs)
    from UnassignChannel_loop_closed [OF Some, of ts] obtain grm' where
      run: "UnassignChannel_loop grm g ts = (grm', None)" and
      same: "channels grm' g = Some (fold remove1 ts chs)" and
      other: "\<forall>g'. g' \<noteq> g \<longrightarrow> channels grm' g' = channels grm g'" and
      mem: "\<forall>t. channelMembership grm' t =
          (if t \<in> set ts \<and> t \<in> set chs then None else channelMembership grm t)" and
      frame: "things grm' = things grm" "thingMembership grm' = thingMembership grm"
      by blast
    have fst: "fst (UnassignChannel grm g ts) = grm'"
      using assms run by (auto simp: UnassignChannel_def)
    have at: "slice_at (channels grm) g = chs"
      using Some by (simp add: slice_at_def)
    have "slice_at (channels grm') g' =
        (if g' = g then fold remove1 ts (slice_at (channels grm) g) else slice_at (channels grm) g')"
      using same other at by (cases "g' = g") (simp_all add: slice_at_def)
    then show ?thesis
      using fst frame mem at by simp
  qed
  then show "slice_at (channels (fst (UnassignChannel grm g ts))) g' =
      (if g' = g then fold remove1 ts (slice_at (channels grm) g) else slice_at (channels grm) g')"
    and "channelMembership (fst (UnassignChannel grm g ts)) t =
      (if t \<in> set ts \<and> t \<in> set (slice_at (channels grm) g) then None
       else channelMembership grm t)"
    and "things (fst (UnassignChannel grm g ts)) = things grm"
    and "thingMembership (fst (UnassignChannel grm g ts)) = thingMembership grm"
    by simp_all
qed

lemma UnassignChannel_error:
  "map_of (groups grm) g = None \<Longrightarrow> fst (UnassignChannel grm g ts) = grm"
  by (simp add: UnassignChannel_def)

subsection \<open>Removal of a batch of groups\<close>

lemma Remove_frame:
  "things (fst (Remove grm ids)) = things grm"
  "channels (fst (Remove grm ids)) = channels grm"
  by (induction ids arbitrary: grm) (auto split: option.splits)

lemma Remove_keeps_unassigned:
  "thingMembership grm t = None \<Longrightarrow> thingMembership (fst (Remove grm ids)) t = None"
  "channelMembership grm c = None \<Longrightarrow> channelMembership (fst (Remove grm ids)) c = None"
  by (induction ids arbitrary: grm) (auto simp: delete_each_apply split: option.splits)

lemma Remove_prefix:
  "distinct pre \<Longrightarrow> \<forall>g\<in>set pre. map_of (groups grm) g \<noteq> None \<Longrightarrow>
   \<exists>grm'. (\<forall>rest. Remove grm (pre @ rest) = Remove grm' rest) \<and>
     (\<forall>g. map_of (groups grm') g = (if g \<in> set pre then None else map_of (groups grm) g)) \<and>
     (\<forall>t. thingMembership grm' t =
        (if \<exists>g\<in>set pre. t \<in> set (slice_at (things grm) g) then None else thingMembership grm t)) \<and>
     (\<forall>c. channelMembership grm' c =
        (if \<exists>g\<in>set pre. c \<in> set (slice_at (channels grm) g) then None
         else channelMembership grm c)) \<and>
     things grm' = things grm \<and> channels grm' = channels grm"
proof (induction pre arbitrary: grm)
  case Nil
  then show ?case by auto
next
  case (Cons a pre)
  define grm1 where "grm1 = grm\<lparr>thingMembership := delete_each (slice_at (things grm) a) (thingMembership grm),
                 channelMembership :=
                   delete_each (slice_at (channels grm) a) (channelMembership grm),
                 groups := AList.delete a (groups grm)\<rparr>"
  from Cons.prems have step: "\<And>rest. Remove grm ((a # pre) @ rest) = Remove grm1 (pre @ rest)"
    by (auto simp: grm1_def)
  from Cons.prems have "distinct pre" "\<forall>g\<in>set pre. map_of (groups grm1) g \<noteq> None"
    by (auto simp: grm1_def delete_conv')
  from Cons.IH [OF this] obtain grm' where
    run: "\<forall>rest. Remove grm1 (pre @ rest) = Remove grm' rest" and
    g: "\<forall>g. map_of (groups grm') g = (if g \<in> set pre then None else map_of (groups grm1) g)" and
    t: "\<forall>t. thingMembership grm' t =
        (if \<exists>g\<in>set pre. t \<in> set (slice_at (things grm1) g) then None else thingMembership grm1 t)" and
    c: "\<forall>c. channelMembership grm' c =
        (if \<exists>g\<in>set pre. c \<in> set (slice_at (channels grm1) g) then None
         else channelMembership grm1 c)" and
    fr: "things grm' = things grm1" "channels grm' = channels grm1"
    by blast
  have "\<forall>rest. Remove grm ((a # pre) @ rest) = Remove grm' rest"
    using step run by simp
  moreover have "\<forall>g. map_of (groups grm') g = (if g \<in> set (a # pre) then None else map_of (groups grm) g)"
    using g by (simp add: grm1_def delete_conv')
  moreover have "\<forall>t. thingMembership grm' t =
        (if \<exists>g\<in>set (a # pre). t \<in> set (slice_at (things grm) g) then None else thingMembership grm t)"
    using t by (simp add: grm1_def delete_each_apply)
  moreover have "\<forall>c. channelMembership grm' c =
        (if \<exists>g\<in>set (a # pre). c \<in> set (slice_at (channels grm) g) then None
         else channelMembership grm c)"
    using c by (simp add: grm1_def delete_each_apply)
  moreover have "things grm' = things grm" "channels grm' = channels grm"
    using fr by (simp_all add: grm1_def)
  ultimately show ?case by blast
qed

lemma Remove_cascade:
  "Remove grm ids = (grm', r) \<Longrightarrow> map_of (groups grm) g \<noteq> None \<Longrightarrow>
   map_of (groups grm') g = None \<Longrightarrow>
   (\<forall>t\<in>set (slice_at (things grm) g). thingMembership grm' t = None) \<and>
   (\<forall>c\<in>set (slice_at (channels grm) g). channelMembership grm' c = None)"
proof (induction ids arbitrary: grm)
  case Nil
  then show ?case by simp
next
  case (Cons a ids)
  show ?case
  proof (cases "map_of (groups grm) a")
    case None
    with Cons.prems show ?thesis by simp
  next
    case (Some grp)
    define grm1 where "grm1 = grm\<lparr>thingMembership := delete_each (slice_at (things grm) a) (thingMembership grm),
                 channelMembership :=
                   delete_each (slice_at (channels grm) a) (channelMembership grm),
                 groups := AList.delete a (groups grm)\<rparr>"
    from Some Cons.prems(1) have run: "Remove grm1 ids = (grm', r)"
      by (simp add: grm1_def)
    show ?thesis
    proof (cases "a = g")
      case True
      have "\<forall>t\<in>set (slice_at (things grm) g). thingMembership grm1 t = None"
        "\<forall>c\<in>set (slice_at (channels grm) g). channelMembership grm1 c = None"
        using True by (simp_all add: grm1_def delete_each_apply)
      then show ?thesis
        using Remove_keeps_unassigned [of grm1 _ ids] run by (metis fst_conv)
    next
      case False
      then have "map_of (groups grm1) g \<noteq> None"
        using Cons.prems(2) by (simp add: grm1_def delete_conv')
      from Cons.IH [OF run this Cons.prems(3)] show ?thesis
        by (simp add: grm1_def)
    qed
  qed
qed

lemma Remove_shrinks_things:
  "thingMembership (fst (Remove grm ids)) t = Some g \<Longrightarrow> thingMembership grm t = Some g"
proof (induction ids arbitrary: grm)
  case Nil
  then show ?case by simp
next
  case (Cons a ids)
  show ?case
  proof (cases "map_of (groups grm) a")
    case None
    with Cons.prems show ?thesis by simp
  next
    case (Some grp)
    with Cons.prems Cons.IH show ?thesis
      by (fastforce simp: delete_each_apply split: if_splits)
  qed
qed

lemma Remove_shrinks_channels:
  "channelMembership (fst (Remove grm ids)) c = Some g \<Longrightarrow> channelMembership grm c = Some g"
proof (induction ids arbitrary: grm)
  case Nil
  then show ?case by simp
next
  case (Cons a ids)
  show ?case
  proof (cases "map_of (groups grm) a")
    case None
    with Cons.prems show ?thesis by simp
  next
    case (Some grp)
    with Cons.prems Cons.IH show ?thesis
      by (fastforce simp: delete_each_apply split: if_splits)
  qed
qed

subsection \<open>Save and Update leave the indices alone\<close>

lemma Save_indices:
  "things (fst (Save grm grp)) = things grm"
  "thingMembership (fst (Save grm grp)) = thingMembership grm"
  "channels (fst (Save grm grp)) = channels grm"
  "channelMembership (fst (Save grm grp)) = channelMembership grm"
  by (simp_all add: Save_def split: option.splits)

lemma Update_indices:
  "things (fst (Update grm now grp)) = things grm"
  "thingMembership (fst (Update grm now grp)) = thingMembership grm"
  "channels (fst (Update grm now grp)) = channels grm"
  "channelMembership (fst (Update grm now grp)) = channelMembership grm"
  by (simp_all add: Update_def Let_def split: option.splits)

subsection \<open>Every method keeps the reverse entries backed\<close>

lemma backed_assign:
  assumes "backed fwd bwd"
    and "\<And>g'. fwd' g' = (if g' = g then fwd g @ ts else fwd g')"
    and "\<And>t. bwd' t = (if t \<in> set ts then Some g else bwd t)"
  shows "backed fwd' bwd'"
  using assms by (auto simp: backed_def split: if_splits)

lemma backed_unassign:
  assumes "backed fwd bwd"
    and fwd': "\<And>g'. fwd' g' = (if g' = g then fold remove1 ts (fwd g) else fwd g')"
    and bwd': "\<And>t. bwd' t = (if t \<in> set ts \<and> t \<in> set (fwd g) then None else bwd t)"
  shows "backed fwd' bwd'"
  unfolding backed_def
proof (intro allI impI)
  fix r g'
  assume "bwd' r = Some g'"
  then have old: "bwd r = Some g'" and keep: "r \<notin> set ts \<or> r \<notin> set (fwd g)"
    by (auto simp: bwd' split: if_splits)
  from old assms(1) have inn: "r \<in> set (fwd g')" by (simp add: backed_def)
  show "r \<in> set (fwd' g')"
  proof (cases "g' = g")
    case True
    with inn keep have "r \<notin> set ts" by auto
    then have "count_list (fold remove1 ts (fwd g)) r = count_list (fwd g) r"
      by (simp add: count_list_fold_remove1)
    with inn True have "count_list (fold remove1 ts (fwd g)) r \<noteq> 0"
      by (simp add: count_list_0_iff)
    with True show ?thesis by (simp add: fwd' count_list_0_iff)
  next
    case False
    with inn show ?thesis by (simp add: fwd')
  qed
qed

lemma backed_shrink:
  assumes "backed fwd bwd" and "\<And>r g. bwd' r = Some g \<Longrightarrow> bwd r = Some g"
  shows "backed fwd bwd'"
  using assms by (simp add: backed_def)

lemma repo_backed_step:
  assumes "repo_backed grm"
  shows "repo_backed (fst (Save grm grp))"
    and "repo_backed (fst (Update grm now grp))"
    and "repo_backed (fst (Remove grm ids))"
    and "repo_backed (fst (AssignThing grm g ts))"
    and "repo_backed (fst (UnassignThing grm g ts))"
    and "repo_backed (fst (AssignChannel grm g cs))"
    and "repo_backed (fst (UnassignChannel grm g cs))"
proof -
  from assms have th: "backed (slice_at (things grm)) (thingMembership grm)"
    and ch: "backed (slice_at (channels grm)) (channelMembership grm)"
    by (simp_all add: repo_backed_def)
  show "repo_backed (fst (Save grm grp))"
    using th ch by (simp add: repo_backed_def Save_indices)
  show "repo_backed (fst (Update grm now grp))"
    using th ch by (simp add: repo_backed_def Update_indices)
  show "repo_backed (fst (Remove grm ids))"
  proof -
    have "backed (slice_at (things grm)) (thingMembership (fst (Remove grm ids)))"
      using th by (rule backed_shrink) (rule Remove_shrinks_things)
    moreover have "backed (slice_at (channels grm)) (channelMembership (fst (Remove grm ids)))"
      using ch by (rule backed_shrink) (rule Remove_shrinks_channels)
    ultimately show ?thesis
      by (simp add: repo_backed_def Remove_frame)
  qed
  show "repo_backed (fst (AssignThing grm g ts))"
  proof (cases "map_of (groups grm) g = None")
    case True
    with assms show ?thesis by (simp add: AssignThing_error)
  next
    case False
    have "backed (slice_at (things (fst (AssignThing grm g ts))))
        (thingMembership (fst (AssignThing grm g ts)))"
      by (rule backed_assign [where g = g and ts = ts, OF th])
        (simp_all add: AssignThing_index [OF False])
    with ch show ?thesis
      by (simp add: repo_backed_def AssignThing_index(3,4) [OF False])
  qed
  show "repo_backed (fst (UnassignThing grm g ts))"
  proof (cases "map_of (groups grm) g = None")
    case True
    with assms show ?thesis by (simp add: UnassignThing_error)
  next
    case False
    have "backed (slice_at (things (fst (UnassignThing grm g ts))))
        (thingMembership (fst (UnassignThing grm g ts)))"
      by (rule backed_unassign [where g = g and ts = ts, OF th])
        (simp_all add: UnassignThing_index [OF False])
    with ch show ?thesis
      by (simp add: repo_backed_def UnassignThing_index(3,4) [OF False])
  qed
  show "repo_backed (fst (AssignChannel grm g cs))"
  proof (cases "map_of (groups grm) g = None")
    case True
    with assms show ?thesis by (simp add: AssignChannel_error)
  next
    case False
    have "backed (slice_at (channels (fst (AssignChannel grm g cs))))
        (channelMembership (fst (AssignChannel grm g cs)))"
      by (rule backed_assign [where g = g and ts = cs, OF ch])
        (simp_all add: AssignChannel_index [OF False])
    with th show ?thesis
      by (simp add: repo_backed_def AssignChannel_index(3,4) [OF False])
  qed
  show "repo_backed (fst (UnassignChannel grm g cs))"
  proof (cases "map_of (groups grm) g = None")
    case True
    with assms show ?thesis by (simp add: UnassignChannel_error)
  next
    case False
    have "backed (slice_at (channels (fst (UnassignChannel grm g cs))))
        (channelMembership (fst (UnassignChannel grm g cs)))"
      by (rule backed_unassign [where g = g and ts = cs, OF ch])
        (simp_all add: UnassignChannel_index [OF False])
    with th show ?thesis
      by (simp add: repo_backed_def UnassignChannel_index(3,4) [OF False])
  qed
qed

lemma reachable_repo_backed: "reachable grm \<Longrightarrow> repo_backed grm"
proof (induction rule: reachable.induct)
  case reach_New
  show ?case by (simp add: repo_backed_def backed_def NewGroupRepository_def)
qed (simp_all add: repo_backed_step)

lemma repo_inv_backed: "repo_inv grm \<Longrightarrow> repo_backed grm"
  unfolding repo_inv_def repo_backed_def index_inv_def backed_def
  by (metis count_list_0_iff zero_neq_one)

subsection \<open>The page loop in closed form\<close>

lemma unat_succ_below: "(i :: uint64) < l \<Longrightarrow> unat (i + 1) = Suc (unat i)"
proof -
  assume "i < l"
  then have "unat i < unat l" by (simp add: word_less_nat_alt)
  moreover have "unat l < 2 ^ 64" using unsigned_less [of l, where 'a = nat] by simp
  ultimately have "unat i + unat (1 :: uint64) < 2 ^ LENGTH(64)" by simp
  then have "unat (i + 1) = unat i + unat (1 :: uint64)" by (simp only: unat_add_lem)
  then show ?thesis by simp
qed

lemma page_loop_closed:
  "unat l \<le> length ids \<Longrightarrow>
   page_loop mk ids i l items =
     Inr (items @ map mk (take (unat l - unat i) (drop (unat i) ids)))"
proof (induction mk ids i l items rule: page_loop.induct)
  case (1 mk ids i l items)
  show ?case
  proof (cases "i < l")
    case True
    then have below: "unat i < unat l" by (simp add: word_less_nat_alt)
    with "1.prems" have inr: "unat i < length ids" by simp
    have suc: "unat (i + 1) = Suc (unat i)" using True by (rule unat_succ_below)
    from below obtain n where n: "unat l - unat i = Suc n" "unat l - Suc (unat i) = n"
      by (metis Suc_diff_Suc)
    have "page_loop mk ids i l items =
        page_loop mk ids (i + 1) l (items @ [mk (ids ! unat i)])"
      using True inr by (subst page_loop.simps) simp
    also have "\<dots> = Inr ((items @ [mk (ids ! unat i)]) @
        map mk (take (unat l - unat (i + 1)) (drop (unat (i + 1)) ids)))"
      using "1.IH" [OF True inr "1.prems"] .
    also have "\<dots> = Inr (items @ map mk (take (unat l - unat i) (drop (unat i) ids)))"
      using inr by (simp add: suc n Cons_nth_drop_Suc [symmetric])
    finally show ?thesis .
  next
    case False
    then have "unat l \<le> unat i" by (simp add: word_less_nat_alt)
    moreover have "page_loop mk ids i l items = Inr items"
      using False by (subst page_loop.simps) simp
    ultimately show ?thesis by simp
  qed
qed

lemma unat_of_nat_length_le: "unat (of_nat n :: uint64) \<le> n"
  by (simp add: unat_of_nat)

lemma page_last_le: "unat (page_last pm ids) \<le> length ids"
proof (cases "Offset pm + Limit pm > of_nat (length ids)")
  case True
  then show ?thesis by (simp add: page_last_def Let_def unat_of_nat_length_le)
next
  case False
  then have "Offset pm + Limit pm \<le> of_nat (length ids)" by simp
  then have "unat (Offset pm + Limit pm) \<le> unat (of_nat (length ids) :: uint64)"
    by (simp add: word_le_nat_alt)
  also have "\<dots> \<le> length ids" by (rule unat_of_nat_length_le)
  finally show ?thesis using False by (simp add: page_last_def Let_def)
qed

lemma page_last_exact:
  assumes "length ids < 2 ^ 64" and "unat (Offset pm) + unat (Limit pm) < 2 ^ 64"
  shows "unat (page_last pm ids) = min (unat (Offset pm) + unat (Limit pm)) (length ids)"
proof -
  have len: "unat (of_nat (length ids) :: uint64) = length ids"
    using assms(1) by (simp add: unat_of_nat)
  have "unat (Offset pm) + unat (Limit pm) < 2 ^ LENGTH(64)"
    using assms(2) by simp
  then have sum: "unat (Offset pm + Limit pm) = unat (Offset pm) + unat (Limit pm)"
    by (simp only: unat_add_lem)
  show ?thesis
  proof (cases "Offset pm + Limit pm > of_nat (length ids)")
    case True
    then have "length ids < unat (Offset pm) + unat (Limit pm)"
      using len sum by (simp add: word_less_nat_alt)
    with True len show ?thesis by (simp add: page_last_def Let_def)
  next
    case False
    then have "unat (Offset pm) + unat (Limit pm) \<le> length ids"
      using len sum by (simp add: word_less_nat_alt)
    with False sum show ?thesis by (simp add: page_last_def Let_def)
  qed
qed

lemma RetrieveGroupThings_closed:
  "things grm groupID = Some ths \<Longrightarrow>
   RetrieveGroupThings grm ownerID groupID pm =
     Inr \<lparr>Things = map (\<lambda>x. \<lparr>Thing_ID = x\<rparr>)
            (take (unat (page_last pm ths) - unat (Offset pm)) (drop (unat (Offset pm)) ths)),
          GroupThingsPage_PageMetadata =
            \<lparr>Total = of_nat (length (take (unat (page_last pm ths) - unat (Offset pm))
                        (drop (unat (Offset pm)) ths))),
             Offset = 0, Limit = 0\<rparr>\<rparr>"
  by (simp add: RetrieveGroupThings_def page_loop_closed [OF page_last_le]
      zero_PageMetadata_def)

lemma int_min_monus: "int (min l (n - k)) = min (int l) (max 0 (int n - int k))"
  by arith

subsection \<open>When one step keeps the index invariant\<close>

lemma count_list_distinct: "distinct xs \<Longrightarrow> x \<in> set xs \<Longrightarrow> count_list xs x = 1"
  by (induction xs) auto

lemma index_inv_broken_fwd:
  "bwd r = Some g \<Longrightarrow> count_list (fwd g) r \<noteq> 1 \<Longrightarrow> \<not> index_inv fwd bwd"
  by (auto simp: index_inv_def)

lemma index_inv_broken_bwd:
  "count_list (fwd g) r = 1 \<Longrightarrow> bwd r \<noteq> Some g \<Longrightarrow> \<not> index_inv fwd bwd"
  by (auto simp: index_inv_def)

lemma index_inv_assign:
  assumes inv: "index_inv fwd bwd" and dist: "distinct ts"
    and fresh: "\<forall>t\<in>set ts. bwd t = None \<and> t \<notin> set (fwd g)"
    and fwd': "\<And>g'. fwd' g' = (if g' = g then fwd g @ ts else fwd g')"
    and bwd': "\<And>t. bwd' t = (if t \<in> set ts then Some g else bwd t)"
  shows "index_inv fwd' bwd'"
  unfolding index_inv_def
proof (intro allI)
  fix r g'
  show "bwd' r = Some g' \<longleftrightarrow> count_list (fwd' g') r = 1"
  proof (cases "r \<in> set ts")
    case True
    with dist have one: "count_list ts r = 1"
      by (simp add: count_list_distinct)
    from True fresh have none: "bwd r = None" and zero: "count_list (fwd g) r = 0"
      by (simp_all add: count_list_0_iff)
    from inv have "bwd r = Some g' \<longleftrightarrow> count_list (fwd g') r = 1"
      unfolding index_inv_def by blast
    with none have other: "count_list (fwd g') r \<noteq> 1"
      by simp
    show ?thesis
      using True one zero other by (simp add: fwd' bwd')
  next
    case False
    then have "count_list ts r = 0" by (simp add: count_list_0_iff)
    moreover from inv have "bwd r = Some g' \<longleftrightarrow> count_list (fwd g') r = 1"
      unfolding index_inv_def by blast
    ultimately show ?thesis
      using False by (simp add: fwd' bwd')
  qed
qed

lemma index_inv_unassign:
  assumes inv: "index_inv fwd bwd"
    and once: "\<forall>t\<in>set ts. count_list (fwd g) t \<le> 1"
    and fwd': "\<And>g'. fwd' g' = (if g' = g then fold remove1 ts (fwd g) else fwd g')"
    and bwd': "\<And>t. bwd' t = (if t \<in> set ts \<and> t \<in> set (fwd g) then None else bwd t)"
  shows "index_inv fwd' bwd'"
  unfolding index_inv_def
proof (intro allI)
  fix r g'
  from inv have old: "bwd r = Some g' \<longleftrightarrow> count_list (fwd g') r = 1"
    unfolding index_inv_def by blast
  show "bwd' r = Some g' \<longleftrightarrow> count_list (fwd' g') r = 1"
  proof (cases "r \<in> set ts")
    case batch: True
    then have pos: "count_list ts r \<noteq> 0" by (simp add: count_list_0_iff)
    show ?thesis
    proof (cases "r \<in> set (fwd g)")
      case True
      then have "count_list (fwd g) r \<noteq> 0" by (simp add: count_list_0_iff)
      with once batch have one: "count_list (fwd g) r = 1"
        by (metis le_antisym less_one linorder_not_le)
      with inv have owner: "bwd r = Some g" unfolding index_inv_def by blast
      show ?thesis
      proof (cases "g' = g")
        case True
        with batch \<open>r \<in> set (fwd g)\<close> one pos show ?thesis
          by (simp add: fwd' bwd' count_list_fold_remove1)
      next
        case False
        with owner old have "count_list (fwd g') r \<noteq> 1" by simp
        with False batch \<open>r \<in> set (fwd g)\<close> show ?thesis
          by (simp add: fwd' bwd')
      qed
    next
      case False
      then have zero: "count_list (fwd g) r = 0" by (simp add: count_list_0_iff)
      with False old show ?thesis
        by (cases "g' = g") (simp_all add: fwd' bwd' count_list_fold_remove1)
    qed
  next
    case False
    then have "count_list ts r = 0" by (simp add: count_list_0_iff)
    with False old show ?thesis
      by (cases "g' = g") (simp_all add: fwd' bwd' count_list_fold_remove1)
  qed
qed

lemma Remove_memberless:
  "\<forall>g\<in>set ids. slice_at (things grm) g = [] \<and> slice_at (channels grm) g = [] \<Longrightarrow>
   thingMembership (fst (Remove grm ids)) = thingMembership grm \<and>
   channelMembership (fst (Remove grm ids)) = channelMembership grm"
proof (induction ids arbitrary: grm)
  case Nil
  then show ?case by simp
next
  case (Cons a ids)
  show ?case
  proof (cases "map_of (groups grm) a")
    case None
    then show ?thesis by simp
  next
    case (Some grp)
    define grm1 where "grm1 = grm\<lparr>groups := AList.delete a (groups grm)\<rparr>"
    from Cons.prems Some have "Remove grm (a # ids) = Remove grm1 ids"
      by (simp add: grm1_def)
    moreover from Cons.prems
    have "\<forall>g\<in>set ids. slice_at (things grm1) g = [] \<and> slice_at (channels grm1) g = []"
      by (simp add: grm1_def)
    from Cons.IH [OF this]
    have "thingMembership (fst (Remove grm1 ids)) = thingMembership grm \<and>
        channelMembership (fst (Remove grm1 ids)) = channelMembership grm"
      by (simp add: grm1_def)
    ultimately show ?thesis by simp
  qed
qed

subsection \<open>The shape of a batch of group IDs\<close>

text \<open>Every batch either consists of distinct stored IDs, or it has a first ID that is
  not stored when its turn comes: one that never was, or one that occurs earlier in the batch.\<close>

lemma Remove_batch_shape:
  "(distinct ids \<and> (\<forall>g\<in>set ids. map_of (groups grm) g \<noteq> None)) \<or>
   (\<exists>pre bad post. ids = pre @ bad # post \<and> distinct pre \<and>
      (\<forall>g\<in>set pre. map_of (groups grm) g \<noteq> None) \<and>
      (map_of (groups grm) bad = None \<or> bad \<in> set pre))"
proof (induction ids rule: rev_induct)
  case Nil
  then show ?case by simp
next
  case (snoc x ids)
  from snoc.IH show ?case
  proof
    assume ok: "distinct ids \<and> (\<forall>g\<in>set ids. map_of (groups grm) g \<noteq> None)"
    show ?thesis
    proof (cases "map_of (groups grm) x = None \<or> x \<in> set ids")
      case True
      with ok have "ids @ [x] = ids @ x # [] \<and> distinct ids \<and>
          (\<forall>g\<in>set ids. map_of (groups grm) g \<noteq> None) \<and>
          (map_of (groups grm) x = None \<or> x \<in> set ids)"
        by simp
      then show ?thesis by blast
    next
      case False
      with ok show ?thesis by auto
    qed
  next
    assume "\<exists>pre bad post. ids = pre @ bad # post \<and> distinct pre \<and>
      (\<forall>g\<in>set pre. map_of (groups grm) g \<noteq> None) \<and>
      (map_of (groups grm) bad = None \<or> bad \<in> set pre)"
    then obtain pre bad post where "ids = pre @ bad # post" "distinct pre"
      "\<forall>g\<in>set pre. map_of (groups grm) g \<noteq> None"
      "map_of (groups grm) bad = None \<or> bad \<in> set pre"
      by blast
    then have "ids @ [x] = pre @ bad # (post @ [x]) \<and> distinct pre \<and>
      (\<forall>g\<in>set pre. map_of (groups grm) g \<noteq> None) \<and>
      (map_of (groups grm) bad = None \<or> bad \<in> set pre)"
      by simp
    then show ?thesis by blast
  qed
qed

subsection \<open>The table of groups has one entry per key\<close>

lemma UnassignThing_loop_groups:
  "groups (fst (UnassignThing_loop grm g ts)) = groups grm"
  by (induction ts arbitrary: grm) (auto split: option.splits)

lemma UnassignChannel_loop_groups:
  "groups (fst (UnassignChannel_loop grm g cs)) = groups grm"
  by (induction cs arbitrary: grm) (auto split: option.splits)

lemma assignment_keeps_groups:
  "groups (fst (AssignThing grm g ts)) = groups grm"
  "groups (fst (UnassignThing grm g ts)) = groups grm"
  "groups (fst (AssignChannel grm g cs)) = groups grm"
  "groups (fst (UnassignChannel grm g cs)) = groups grm"
  by (simp_all add: AssignThing_def UnassignThing_def AssignChannel_def UnassignChannel_def
      AssignThing_loop_frame AssignChannel_loop_frame UnassignThing_loop_groups
      UnassignChannel_loop_groups split: option.splits)

lemma Remove_distinct_keys:
  "distinct (map fst (groups grm)) \<Longrightarrow> distinct (map fst (groups (fst (Remove grm ids))))"
  by (induction ids arbitrary: grm) (auto simp: distinct_delete split: option.splits)

lemma reachable_distinct_keys: "reachable grm \<Longrightarrow> distinct (map fst (groups grm))"
proof (induction rule: reachable.induct)
  case reach_New
  show ?case by (simp add: NewGroupRepository_def)
next
  case (reach_Save grm grp)
  then show ?case by (simp add: Save_def distinct_update split: option.splits)
next
  case (reach_Update grm now grp)
  then show ?case by (simp add: Update_def Let_def distinct_update split: option.splits)
next
  case (reach_Remove grm ids)
  then show ?case by (simp add: Remove_distinct_keys)
qed (simp_all add: assignment_keeps_groups)

lemma distinct_keys_values:
  assumes "distinct (map fst al)"
  shows "set (map snd al) = ran (map_of al)" and "length al = card (dom (map_of al))"
proof -
  show "set (map snd al) = ran (map_of al)"
    using assms by (simp add: ran_distinct)
  have "card (dom (map_of al)) = card (set (map fst al))"
    by (simp add: dom_map_of_conv_image_fst)
  also have "\<dots> = length (map fst al)"
    using assms by (rule distinct_card)
  finally show "length al = card (dom (map_of al))" by simp
qed

subsection \<open>The index invariant\<close>

text \<open>
  Claim C1, as stated: from every reachable state that satisfies the index invariant,
  every one of Save, Update, Remove, AssignThing, UnassignThing, AssignChannel and
  UnassignChannel leads to a state that satisfies it. Four calls in two reachable
  states refute it.
  With T1, T2, T3 assigned to G1 the invariant holds; assigning T1 to G1 again gives
  T1 two occurrences in the sequence of G1; assigning T1 to G2 instead leaves its
  occurrence in the sequence of G1 while the reverse entry says G2; removing G1 deletes
  the reverse entries and leaves the sequence of G1 in the forward index. And where T1
  occurs twice in the sequence of G1 without a reverse entry, the invariant holds, and
  unassigning T1 from G1 leaves one occurrence without a reverse entry.
\<close>

theorem index_invariant_counterexample:
  "reachable repo_assigned \<and> repo_inv repo_assigned \<and>
   \<not> repo_inv (fst (AssignThing repo_assigned ''G1'' [''T1''])) \<and>
   \<not> repo_inv (fst (AssignThing repo_assigned ''G2'' [''T1''])) \<and>
   \<not> repo_inv (fst (Remove repo_assigned [''G1''])) \<and>
   reachable repo_twice \<and> repo_inv repo_twice \<and>
   \<not> repo_inv (fst (UnassignThing repo_twice ''G1'' [''T1'']))"
proof -
  have "\<not> index_inv (slice_at (things (fst (AssignThing repo_assigned ''G1'' [''T1''])))) 
      (thingMembership (fst (AssignThing repo_assigned ''G1'' [''T1''])))"
    by (rule index_inv_broken_fwd [where r = "''T1''" and g = "''G1''"])
      (simp_all add: repo_assigned_eq AssignThing_def slice_at_def)
  then have a: "\<not> repo_inv (fst (AssignThing repo_assigned ''G1'' [''T1'']))"
    by (simp add: repo_inv_def)
  have "\<not> index_inv (slice_at (things (fst (AssignThing repo_assigned ''G2'' [''T1'']))))
      (thingMembership (fst (AssignThing repo_assigned ''G2'' [''T1''])))"
    by (rule index_inv_broken_bwd [where r = "''T1''" and g = "''G1''"])
      (simp_all add: repo_assigned_eq AssignThing_def slice_at_def)
  then have b: "\<not> repo_inv (fst (AssignThing repo_assigned ''G2'' [''T1'']))"
    by (simp add: repo_inv_def)
  have "\<not> index_inv (slice_at (things (fst (Remove repo_assigned [''G1'']))))
      (thingMembership (fst (Remove repo_assigned [''G1''])))"
    by (rule index_inv_broken_bwd [where r = "''T1''" and g = "''G1''"])
      (simp_all add: repo_assigned_eq slice_at_def)
  then have c: "\<not> repo_inv (fst (Remove repo_assigned [''G1'']))"
    by (simp add: repo_inv_def)
  have "\<not> index_inv (slice_at (things (fst (UnassignThing repo_twice ''G1'' [''T1'']))))
      (thingMembership (fst (UnassignThing repo_twice ''G1'' [''T1''])))"
    by (rule index_inv_broken_bwd [where r = "''T1''" and g = "''G1''"])
      (simp_all add: repo_twice_eq UnassignThing_def slice_at_def cut_at_def)
  then have d: "\<not> repo_inv (fst (UnassignThing repo_twice ''G1'' [''T1'']))"
    by (simp add: repo_inv_def)
  from a b c d show ?thesis
    by (simp add: reachable_repo_assigned repo_inv_repo_assigned reachable_repo_twice
        repo_inv_repo_twice)
qed

text \<open>
  Claim C1, amended, in two parts. First, for every state and both resource kinds,
  every one of the seven operations, called with any arguments, preserves one half of
  the invariant: a resource ID with the reverse entry \<open>g\<close> occurs in the forward
  sequence of \<open>g\<close> (at least once). Second, from every state that satisfies the full
  invariant for both resource kinds, the state after the call satisfies it again for
  \<^item> Save and Update, always;
  \<^item> AssignThing and AssignChannel, when the IDs of the batch are distinct, have no
    reverse entry and do not occur in the group's sequence;
  \<^item> UnassignThing and UnassignChannel, when no ID of the batch occurs more than once
    in the group's sequence;
  \<^item> Remove, when the forward sequences of the groups in the batch are empty.
  A call that fails before changing anything is covered by each case.
\<close>

theorem index_invariant_preserved:
  "(repo_backed grm \<longrightarrow>
      repo_backed (fst (Save grm grp)) \<and> repo_backed (fst (Update grm now grp)) \<and>
      repo_backed (fst (Remove grm ids)) \<and>
      repo_backed (fst (AssignThing grm g ts)) \<and> repo_backed (fst (UnassignThing grm g ts)) \<and>
      repo_backed (fst (AssignChannel grm g cs)) \<and>
      repo_backed (fst (UnassignChannel grm g cs))) \<and>
   (repo_inv grm \<longrightarrow>
      repo_inv (fst (Save grm grp)) \<and> repo_inv (fst (Update grm now grp)) \<and>
      (distinct ts \<and>
       (\<forall>t\<in>set ts. thingMembership grm t = None \<and> t \<notin> set (slice_at (things grm) g))
         \<longrightarrow> repo_inv (fst (AssignThing grm g ts))) \<and>
      (distinct cs \<and>
       (\<forall>c\<in>set cs. channelMembership grm c = None \<and> c \<notin> set (slice_at (channels grm) g))
         \<longrightarrow> repo_inv (fst (AssignChannel grm g cs))) \<and>
      ((\<forall>t\<in>set ts. count_list (slice_at (things grm) g) t \<le> 1)
         \<longrightarrow> repo_inv (fst (UnassignThing grm g ts))) \<and>
      ((\<forall>c\<in>set cs. count_list (slice_at (channels grm) g) c \<le> 1)
         \<longrightarrow> repo_inv (fst (UnassignChannel grm g cs))) \<and>
      ((\<forall>g\<in>set ids. slice_at (things grm) g = [] \<and> slice_at (channels grm) g = [])
         \<longrightarrow> repo_inv (fst (Remove grm ids))))"
proof -
  have half: "repo_backed (fst (Save grm grp)) \<and> repo_backed (fst (Update grm now grp)) \<and>
      repo_backed (fst (Remove grm ids)) \<and>
      repo_backed (fst (AssignThing grm g ts)) \<and> repo_backed (fst (UnassignThing grm g ts)) \<and>
      repo_backed (fst (AssignChannel grm g cs)) \<and>
      repo_backed (fst (UnassignChannel grm g cs))"
    if "repo_backed grm"
    by (intro conjI repo_backed_step that)
  have full: "repo_inv (fst (Save grm grp)) \<and> repo_inv (fst (Update grm now grp)) \<and>
      (distinct ts \<and>
       (\<forall>t\<in>set ts. thingMembership grm t = None \<and> t \<notin> set (slice_at (things grm) g))
         \<longrightarrow> repo_inv (fst (AssignThing grm g ts))) \<and>
      (distinct cs \<and>
       (\<forall>c\<in>set cs. channelMembership grm c = None \<and> c \<notin> set (slice_at (channels grm) g))
         \<longrightarrow> repo_inv (fst (AssignChannel grm g cs))) \<and>
      ((\<forall>t\<in>set ts. count_list (slice_at (things grm) g) t \<le> 1)
         \<longrightarrow> repo_inv (fst (UnassignThing grm g ts))) \<and>
      ((\<forall>c\<in>set cs. count_list (slice_at (channels grm) g) c \<le> 1)
         \<longrightarrow> repo_inv (fst (UnassignChannel grm g cs))) \<and>
      ((\<forall>g\<in>set ids. slice_at (things grm) g = [] \<and> slice_at (channels grm) g = [])
         \<longrightarrow> repo_inv (fst (Remove grm ids)))"
    if assms: "repo_inv grm"
  proof -
    from assms have th: "index_inv (slice_at (things grm)) (thingMembership grm)"
      and ch: "index_inv (slice_at (channels grm)) (channelMembership grm)"
      by (simp_all add: repo_inv_def)
    have save: "repo_inv (fst (Save grm grp))"
      using th ch by (simp add: repo_inv_def Save_indices)
    have update: "repo_inv (fst (Update grm now grp))"
      using th ch by (simp add: repo_inv_def Update_indices)
    have assign_thing: "repo_inv (fst (AssignThing grm g ts))"
      if "distinct ts"
        "\<forall>t\<in>set ts. thingMembership grm t = None \<and> t \<notin> set (slice_at (things grm) g)"
    proof (cases "map_of (groups grm) g = None")
      case True
      with assms show ?thesis by (simp add: AssignThing_error)
    next
      case False
      have "index_inv (slice_at (things (fst (AssignThing grm g ts))))
          (thingMembership (fst (AssignThing grm g ts)))"
        by (rule index_inv_assign [where g = g and ts = ts, OF th that])
          (simp_all add: AssignThing_index [OF False])
      with ch show ?thesis
        by (simp add: repo_inv_def AssignThing_index(3,4) [OF False])
    qed
    have assign_channel: "repo_inv (fst (AssignChannel grm g cs))"
      if "distinct cs"
        "\<forall>c\<in>set cs. channelMembership grm c = None \<and> c \<notin> set (slice_at (channels grm) g)"
    proof (cases "map_of (groups grm) g = None")
      case True
      with assms show ?thesis by (simp add: AssignChannel_error)
    next
      case False
      have "index_inv (slice_at (channels (fst (AssignChannel grm g cs))))
          (channelMembership (fst (AssignChannel grm g cs)))"
        by (rule index_inv_assign [where g = g and ts = cs, OF ch that])
          (simp_all add: AssignChannel_index [OF False])
      with th show ?thesis
        by (simp add: repo_inv_def AssignChannel_index(3,4) [OF False])
    qed
    have unassign_thing: "repo_inv (fst (UnassignThing grm g ts))"
      if "\<forall>t\<in>set ts. count_list (slice_at (things grm) g) t \<le> 1"
    proof (cases "map_of (groups grm) g = None")
      case True
      with assms show ?thesis by (simp add: UnassignThing_error)
    next
      case False
      have "index_inv (slice_at (things (fst (UnassignThing grm g ts))))
          (thingMembership (fst (UnassignThing grm g ts)))"
        by (rule index_inv_unassign [where g = g and ts = ts, OF th that])
          (simp_all add: UnassignThing_index [OF False])
      with ch show ?thesis
        by (simp add: repo_inv_def UnassignThing_index(3,4) [OF False])
    qed
    have unassign_channel: "repo_inv (fst (UnassignChannel grm g cs))"
      if "\<forall>c\<in>set cs. count_list (slice_at (channels grm) g) c \<le> 1"
    proof (cases "map_of (groups grm) g = None")
      case True
      with assms show ?thesis by (simp add: UnassignChannel_error)
    next
      case False
      have "index_inv (slice_at (channels (fst (UnassignChannel grm g cs))))
          (channelMembership (fst (UnassignChannel grm g cs)))"
        by (rule index_inv_unassign [where g = g and ts = cs, OF ch that])
          (simp_all add: UnassignChannel_index [OF False])
      with th show ?thesis
        by (simp add: repo_inv_def UnassignChannel_index(3,4) [OF False])
    qed
    have remove: "repo_inv (fst (Remove grm ids))"
      if "\<forall>g\<in>set ids. slice_at (things grm) g = [] \<and> slice_at (channels grm) g = []"
      using Remove_memberless [OF that] th ch by (simp add: repo_inv_def Remove_frame)
    from save update assign_thing assign_channel unassign_thing unassign_channel remove
    show ?thesis by blast
  qed
  from half full show ?thesis by blast
qed

theorem index_invariant_preserved_witness:
  "repo_backed repo_full \<and>
   repo_backed (fst (AssignThing repo_full ''G2'' [''T1''])) \<and>
   repo_backed (fst (Remove repo_full [''G1''])) \<and>
   repo_inv repo_full \<and>
   repo_inv (fst (Save repo_full group_G3)) \<and>
   repo_inv (fst (Update repo_full 400 group_G2)) \<and>
   distinct [''T4'', ''T5''] \<and> thingMembership repo_full ''T4'' = None \<and>
   repo_inv (fst (AssignThing repo_full ''G2'' [''T4'', ''T5''])) \<and>
   repo_inv (fst (AssignChannel repo_full ''G2'' [''C3''])) \<and>
   count_list (slice_at (things repo_full) ''G1'') ''T2'' = 1 \<and>
   repo_inv (fst (UnassignThing repo_full ''G1'' [''T2'', ''T7''])) \<and>
   repo_inv (fst (UnassignChannel repo_full ''G1'' [''C1''])) \<and>
   slice_at (things repo_full) ''G2'' = [] \<and>
   repo_inv (fst (Remove repo_full [''G2'']))"
proof -
  note inv = repo_inv_repo_full
  note bck = repo_inv_backed [OF inv]
  have facts: "distinct [''T4'', ''T5'']" "thingMembership repo_full ''T4'' = None"
    "count_list (slice_at (things repo_full) ''G1'') ''T2'' = 1"
    "slice_at (things repo_full) ''G2'' = []"
    by (simp_all add: repo_full_eq slice_at_def)
  have "repo_backed (fst (AssignThing repo_full ''G2'' [''T1'']))"
    "repo_backed (fst (Remove repo_full [''G1'']))"
    using index_invariant_preserved
      [where grm = repo_full and grp = group_G3 and now = 400 and ts = "[''T1'']"
        and g = "''G2''" and cs = "[]" and ids = "[''G1'']"] bck
    by simp_all
  moreover have "repo_inv (fst (Save repo_full group_G3))"
    using index_invariant_preserved
      [where grm = repo_full and grp = group_G3 and now = 400 and ts = "[]"
        and g = "''G1''" and cs = "[]" and ids = "[]"] inv
    by simp
  moreover have "repo_inv (fst (Update repo_full 400 group_G2))"
    using index_invariant_preserved
      [where grm = repo_full and grp = group_G2 and now = 400 and ts = "[]"
        and g = "''G1''" and cs = "[]" and ids = "[]"] inv
    by simp
  moreover have "repo_inv (fst (AssignThing repo_full ''G2'' [''T4'', ''T5'']))"
    using index_invariant_preserved
      [where grm = repo_full and grp = group_G3 and now = 400 and ts = "[''T4'', ''T5'']"
        and g = "''G2''" and cs = "[]" and ids = "[]"] inv
    by (simp add: repo_full_eq slice_at_def)
  moreover have "repo_inv (fst (AssignChannel repo_full ''G2'' [''C3'']))"
    using index_invariant_preserved
      [where grm = repo_full and grp = group_G3 and now = 400 and ts = "[]"
        and g = "''G2''" and cs = "[''C3'']" and ids = "[]"] inv
    by (simp add: repo_full_eq slice_at_def)
  moreover have "repo_inv (fst (UnassignThing repo_full ''G1'' [''T2'', ''T7'']))"
    using index_invariant_preserved
      [where grm = repo_full and grp = group_G3 and now = 400 and ts = "[''T2'', ''T7'']"
        and g = "''G1''" and cs = "[]" and ids = "[]"] inv
    by (simp add: repo_full_eq slice_at_def)
  moreover have "repo_inv (fst (UnassignChannel repo_full ''G1'' [''C1'']))"
    using index_invariant_preserved
      [where grm = repo_full and grp = group_G3 and now = 400 and ts = "[]"
        and g = "''G1''" and cs = "[''C1'']" and ids = "[]"] inv
    by (simp add: repo_full_eq slice_at_def)
  moreover have "repo_inv (fst (Remove repo_full [''G2'']))"
    using index_invariant_preserved
      [where grm = repo_full and grp = group_G3 and now = 400 and ts = "[]"
        and g = "''G1''" and cs = "[]" and ids = "[''G2'']"] inv
    by (simp add: repo_full_eq slice_at_def)
  ultimately show ?thesis
    using inv bck facts by blast
qed

subsection \<open>Paging through the things of a group\<close>

text \<open>
  Claim C2, as stated: for a group with N things, \<open>RetrieveGroupThings\<close> returns
  \<open>min(Limit, max(0, N - Offset))\<close> items and a Total of N, for every Offset and
  Limit. With three things in G1, Offset 1 and Limit 1, the page holds T2 and its Total
  is 1, not 3. With Offset 1 and Limit \<open>2 ^ 64 - 1\<close> the sum \<open>first + Limit\<close> wraps
  around to 0, the loop does not run and the page is empty, where the formula gives 2.
\<close>

theorem RetrieveGroupThings_counterexample:
  "length (slice_at (things repo_assigned) ''G1'') = 3 \<and>
   RetrieveGroupThings repo_assigned ''alice'' ''G1'' \<lparr>Total = 0, Offset = 1, Limit = 1\<rparr> =
     Inr \<lparr>Things = [\<lparr>Thing_ID = ''T2''\<rparr>],
          GroupThingsPage_PageMetadata = \<lparr>Total = 1, Offset = 0, Limit = 0\<rparr>\<rparr> \<and>
   RetrieveGroupThings repo_assigned ''alice'' ''G1''
       \<lparr>Total = 0, Offset = 1, Limit = 18446744073709551615\<rparr> =
     Inr \<lparr>Things = [],
          GroupThingsPage_PageMetadata = \<lparr>Total = 0, Offset = 0, Limit = 0\<rparr>\<rparr> \<and>
   min (18446744073709551615 :: int) (max 0 (3 - 1)) = 2"
proof -
  have at: "things repo_assigned ''G1'' = Some [''T1'', ''T2'', ''T3'']"
    by (simp add: repo_assigned_eq)
  have l1: "page_last \<lparr>Total = 0, Offset = 1, Limit = 1\<rparr> [''T1'', ''T2'', ''T3''] = 2"
    by (simp add: page_last_def)
  have l2: "page_last \<lparr>Total = 0, Offset = 1, Limit = 18446744073709551615\<rparr>
      [''T1'', ''T2'', ''T3''] = 0"
    by (simp add: page_last_def)
  show ?thesis
    by (simp add: RetrieveGroupThings_closed [OF at] l1 l2 slice_at_def at)
qed

text \<open>
  Claim C2, amended: for every group whose forward index holds a sequence of things,
  and every Offset and Limit, \<open>RetrieveGroupThings\<close> succeeds and the Total of the
  page is the number of items it returns (never more than N). When the sequence is
  shorter than \<open>2 ^ 64\<close> and \<open>Offset + Limit\<close> is below \<open>2 ^ 64\<close>, the items are
  the things at positions \<open>[Offset, Offset + Limit)\<close> of the sequence, cut at its
  end, in order; their number is \<open>min(Limit, max(0, N - Offset))\<close>, and Total, read
  as a number, equals it.
\<close>

theorem RetrieveGroupThings_page:
  assumes "things grm groupID = Some ths"
  shows "\<exists>items.
     RetrieveGroupThings grm ownerID groupID pm =
       Inr \<lparr>Things = items,
            GroupThingsPage_PageMetadata =
              \<lparr>Total = of_nat (length items), Offset = 0, Limit = 0\<rparr>\<rparr> \<and>
     length items \<le> length ths \<and>
     (length ths < 2 ^ 64 \<and> unat (Offset pm) + unat (Limit pm) < 2 ^ 64 \<longrightarrow>
        items = map (\<lambda>x. \<lparr>Thing_ID = x\<rparr>) (take (unat (Limit pm)) (drop (unat (Offset pm)) ths)) \<and>
        int (length items) =
          min (int (unat (Limit pm))) (max 0 (int (length ths) - int (unat (Offset pm)))) \<and>
        unat (of_nat (length items) :: uint64) = length items)"
proof -
  define n where "n = unat (page_last pm ths) - unat (Offset pm)"
  define items where
    "items = map (\<lambda>x. \<lparr>Thing_ID = x\<rparr>) (take n (drop (unat (Offset pm)) ths))"
  have run: "RetrieveGroupThings grm ownerID groupID pm =
       Inr \<lparr>Things = items,
            GroupThingsPage_PageMetadata =
              \<lparr>Total = of_nat (length items), Offset = 0, Limit = 0\<rparr>\<rparr>"
    using RetrieveGroupThings_closed [OF assms, of ownerID pm]
    by (simp add: items_def n_def)
  have short: "length items \<le> length ths"
    by (simp add: items_def)
  have exact: "items = map (\<lambda>x. \<lparr>Thing_ID = x\<rparr>) (take (unat (Limit pm)) (drop (unat (Offset pm)) ths)) \<and>
        int (length items) =
          min (int (unat (Limit pm))) (max 0 (int (length ths) - int (unat (Offset pm)))) \<and>
        unat (of_nat (length items) :: uint64) = length items"
    if fit: "length ths < 2 ^ 64" and sum: "unat (Offset pm) + unat (Limit pm) < 2 ^ 64"
  proof -
    have n: "n = min (unat (Limit pm)) (length ths - unat (Offset pm))"
      using page_last_exact [OF fit sum] by (simp add: n_def)
    have "take n (drop (unat (Offset pm)) ths) =
        take (unat (Limit pm)) (drop (unat (Offset pm)) ths)"
      by (simp add: n min_def)
    then have a: "items = map (\<lambda>x. \<lparr>Thing_ID = x\<rparr>)
        (take (unat (Limit pm)) (drop (unat (Offset pm)) ths))"
      by (simp add: items_def)
    have len: "length items = min (unat (Limit pm)) (length ths - unat (Offset pm))"
      by (simp add: items_def n)
    then have b: "int (length items) =
          min (int (unat (Limit pm))) (max 0 (int (length ths) - int (unat (Offset pm))))"
      by (simp only: int_min_monus)
    from short fit have "length items < 2 ^ 64" by simp
    then have c: "unat (of_nat (length items) :: uint64) = length items"
      by (simp add: unat_of_nat)
    from a b c show ?thesis by blast
  qed
  from run short exact show ?thesis by blast
qed

theorem RetrieveGroupThings_page_witness:
  "things repo_assigned ''G1'' = Some [''T1'', ''T2'', ''T3''] \<and>
   length [''T1'', ''T2'', ''T3''] < (2 :: nat) ^ 64 \<and>
   unat (Offset \<lparr>Total = 0, Offset = 1, Limit = 5\<rparr>) + unat (Limit \<lparr>Total = 0, Offset = 1, Limit = 5\<rparr>)
     < (2 :: nat) ^ 64 \<and>
   RetrieveGroupThings repo_assigned ''alice'' ''G1'' \<lparr>Total = 0, Offset = 1, Limit = 5\<rparr> =
     Inr \<lparr>Things = [\<lparr>Thing_ID = ''T2''\<rparr>, \<lparr>Thing_ID = ''T3''\<rparr>],
          GroupThingsPage_PageMetadata = \<lparr>Total = 2, Offset = 0, Limit = 0\<rparr>\<rparr> \<and>
   min (5 :: int) (max 0 (3 - 1)) = 2"
proof -
  have at: "things repo_assigned ''G1'' = Some [''T1'', ''T2'', ''T3'']"
    by (simp add: repo_assigned_eq)
  have fit: "length [''T1'', ''T2'', ''T3''] < (2 :: nat) ^ 64"
    "unat (Offset \<lparr>Total = 0, Offset = 1, Limit = 5\<rparr>) + unat (Limit \<lparr>Total = 0, Offset = 1, Limit = 5\<rparr>)
     < (2 :: nat) ^ 64"
    by simp_all
  from RetrieveGroupThings_page [OF at, of "''alice''" "\<lparr>Total = 0, Offset = 1, Limit = 5\<rparr>"] fit
  obtain items where
    "RetrieveGroupThings repo_assigned ''alice'' ''G1'' \<lparr>Total = 0, Offset = 1, Limit = 5\<rparr> =
       Inr \<lparr>Things = items,
            GroupThingsPage_PageMetadata =
              \<lparr>Total = of_nat (length items), Offset = 0, Limit = 0\<rparr>\<rparr>"
    "items = map (\<lambda>x. \<lparr>Thing_ID = x\<rparr>)
       (take (unat (Limit \<lparr>Total = 0, Offset = 1, Limit = 5\<rparr>))
          (drop (unat (Offset \<lparr>Total = 0, Offset = 1, Limit = 5\<rparr>)) [''T1'', ''T2'', ''T3'']))"
    by blast
  then have "RetrieveGroupThings repo_assigned ''alice'' ''G1'' \<lparr>Total = 0, Offset = 1, Limit = 5\<rparr> =
     Inr \<lparr>Things = [\<lparr>Thing_ID = ''T2''\<rparr>, \<lparr>Thing_ID = ''T3''\<rparr>],
          GroupThingsPage_PageMetadata = \<lparr>Total = 2, Offset = 0, Limit = 0\<rparr>\<rparr>"
    by simp
  with at fit show ?thesis by simp
qed

subsection \<open>Listing by owner\<close>

text \<open>
  Claim C3, as stated: \<open>RetrieveByOwner\<close> returns only the groups of the given owner
  and reports the size of that owner-filtered population as Total. The method does
  not: asked for the groups of alice in a repository that holds one group of alice and
  one of bob, it returns both and reports 2, where one group belongs to alice.
\<close>

theorem RetrieveByOwner_counterexample:
  "RetrieveByOwner repo_two_groups ''alice'' \<lparr>Total = 0, Offset = 0, Limit = 10\<rparr> =
     Inr \<lparr>Groups = [group_G1, group_G2],
          GroupPage_PageMetadata = \<lparr>Total = 2, Offset = 0, Limit = 0\<rparr>\<rparr> \<and>
   OwnerID group_G2 \<noteq> ''alice'' \<and>
   length (filter (\<lambda>g. OwnerID g = ''alice'') (map snd (groups repo_two_groups))) = 1"
  by (simp add: RetrieveByOwner_def zero_PageMetadata_def repo_two_groups_eq
      group_G1_def group_G2_def)

text \<open>
  Claim C3, amended: for every stored set of groups, every owner and every page
  request, \<open>RetrieveByOwner\<close> succeeds and returns every entry of the table of
  groups, whatever its owner, and Total is the number of groups returned (modulo
  \<open>2 ^ 64\<close>). In a reachable state these are exactly the stored groups, one per
  stored ID, so Total counts the whole store.
\<close>

theorem RetrieveByOwner_returns_all:
  "\<exists>page. RetrieveByOwner grm ownerID pm = Inr page \<and>
     Groups page = map snd (groups grm) \<and>
     GroupPage_PageMetadata page =
       \<lparr>Total = of_nat (length (Groups page)), Offset = 0, Limit = 0\<rparr> \<and>
     (reachable grm \<longrightarrow>
        set (Groups page) = ran (map_of (groups grm)) \<and>
        length (Groups page) = card (dom (map_of (groups grm))))"
proof -
  have "reachable grm \<Longrightarrow>
      set (map snd (groups grm)) = ran (map_of (groups grm)) \<and>
      length (map snd (groups grm)) = card (dom (map_of (groups grm)))"
    using distinct_keys_values [OF reachable_distinct_keys, of grm] by simp
  then show ?thesis
    by (simp add: RetrieveByOwner_def zero_PageMetadata_def)
qed

theorem RetrieveByOwner_returns_all_witness:
  "reachable repo_two_groups \<and>
   RetrieveByOwner repo_two_groups ''bob'' \<lparr>Total = 0, Offset = 1, Limit = 1\<rparr> =
     Inr \<lparr>Groups = [group_G1, group_G2],
          GroupPage_PageMetadata = \<lparr>Total = 2, Offset = 0, Limit = 0\<rparr>\<rparr> \<and>
   card (dom (map_of (groups repo_two_groups))) = 2"
proof -
  from RetrieveByOwner_returns_all [of repo_two_groups "''bob''" "\<lparr>Total = 0, Offset = 1, Limit = 1\<rparr>"]
    reachable_repo_two_groups
  obtain page where "RetrieveByOwner repo_two_groups ''bob'' \<lparr>Total = 0, Offset = 1, Limit = 1\<rparr> = Inr page"
    "Groups page = map snd (groups repo_two_groups)"
    "GroupPage_PageMetadata page = \<lparr>Total = of_nat (length (Groups page)), Offset = 0, Limit = 0\<rparr>"
    "length (Groups page) = card (dom (map_of (groups repo_two_groups)))"
    by blast
  moreover have "map snd (groups repo_two_groups) = [group_G1, group_G2]"
    by (simp add: repo_two_groups_eq)
  moreover have "page = \<lparr>Groups = Groups page, GroupPage_PageMetadata = GroupPage_PageMetadata page\<rparr>"
    by simp
  ultimately show ?thesis
    using reachable_repo_two_groups by simp
qed

subsection \<open>The two policies for a group without an index entry\<close>

text \<open>
  Claim C4: for a group ID with no entry in the forward index of things,
  \<open>RetrieveGroupThings\<close> fails with NotFound; for a group ID with no entry in the
  forward index of channels, \<open>RetrieveGroupChannels\<close> returns the empty page and no
  error.
\<close>

theorem empty_membership_asymmetry:
  "(things grm groupID = None \<longrightarrow>
      RetrieveGroupThings grm ownerID groupID pm = Inl ErrNotFound) \<and>
   (channels grm groupID = None \<longrightarrow>
      RetrieveGroupChannels grm ownerID groupID pm =
        Inr \<lparr>Channels = [],
             GroupChannelsPage_PageMetadata = \<lparr>Total = 0, Offset = 0, Limit = 0\<rparr>\<rparr>)"
  by (simp add: RetrieveGroupThings_def RetrieveGroupChannels_def zero_PageMetadata_def)

theorem empty_membership_asymmetry_witness:
  "things repo_two_groups ''G1'' = None \<and> channels repo_two_groups ''G1'' = None \<and>
   RetrieveGroupThings repo_two_groups ''alice'' ''G1'' \<lparr>Total = 0, Offset = 0, Limit = 10\<rparr> =
     Inl ErrNotFound \<and>
   RetrieveGroupChannels repo_two_groups ''alice'' ''G1'' \<lparr>Total = 0, Offset = 0, Limit = 10\<rparr> =
     Inr \<lparr>Channels = [],
          GroupChannelsPage_PageMetadata = \<lparr>Total = 0, Offset = 0, Limit = 0\<rparr>\<rparr>"
  using empty_membership_asymmetry
    [of repo_two_groups "''G1''" "''alice''" "\<lparr>Total = 0, Offset = 0, Limit = 10\<rparr>"]
  by (simp add: repo_two_groups_eq)

subsection \<open>Assigning things\<close>

text \<open>
  Claim C5: when the group does not exist, \<open>AssignThing\<close> fails with NotFound and
  leaves the state as it was. When the group exists, \<open>AssignThing\<close> returns no error;
  the group's forward sequence is the old one followed by the whole batch in order, with
  no check for IDs already there; every other group's forward sequence is untouched, also
  where it holds an ID of the batch; each ID of the batch has the group as its
  reverse-index entry and every other ID keeps its entry; nothing else changes. In
  particular, assigning one thing to one group twice adds it to the sequence twice.
\<close>

theorem AssignThing_appends:
  "(map_of (groups grm) g = None \<longrightarrow> AssignThing grm g ts = (grm, Some ErrNotFound)) \<and>
   (map_of (groups grm) g \<noteq> None \<longrightarrow>
      (\<exists>grm'. AssignThing grm g ts = (grm', None) \<and>
         things grm' g = Some (slice_at (things grm) g @ ts) \<and>
         (\<forall>g'. g' \<noteq> g \<longrightarrow> things grm' g' = things grm g') \<and>
         (\<forall>t. thingMembership grm' t = (if t \<in> set ts then Some g else thingMembership grm t)) \<and>
         groups grm' = groups grm \<and> channels grm' = channels grm \<and>
         channelMembership grm' = channelMembership grm) \<and>
      slice_at (things (fst (AssignThing (fst (AssignThing grm g [t])) g [t]))) g =
        slice_at (things grm) g @ [t, t])"
proof (intro conjI impI)
  assume "map_of (groups grm) g = None"
  then show "AssignThing grm g ts = (grm, Some ErrNotFound)"
    by (simp add: AssignThing_def)
next
  assume ex: "map_of (groups grm) g \<noteq> None"
  define grm1 where
    "grm1 = (case things grm g of
               None \<Rightarrow> grm\<lparr>things := (things grm)(g \<mapsto> [])\<rparr>
             | Some _ \<Rightarrow> grm)"
  have run: "AssignThing grm g ts = (AssignThing_loop grm1 g ts, None)"
    using ex by (auto simp: AssignThing_def grm1_def)
  have at: "things grm1 g = Some (slice_at (things grm) g)"
    by (simp add: grm1_def slice_at_def split: option.splits)
  have other: "\<And>g'. g' \<noteq> g \<Longrightarrow> things grm1 g' = things grm g'"
    by (simp add: grm1_def split: option.splits)
  have frame: "groups grm1 = groups grm" "channels grm1 = channels grm"
    "channelMembership grm1 = channelMembership grm"
    "thingMembership grm1 = thingMembership grm"
    by (simp_all add: grm1_def split: option.splits)
  show "\<exists>grm'. AssignThing grm g ts = (grm', None) \<and>
         things grm' g = Some (slice_at (things grm) g @ ts) \<and>
         (\<forall>g'. g' \<noteq> g \<longrightarrow> things grm' g' = things grm g') \<and>
         (\<forall>t. thingMembership grm' t = (if t \<in> set ts then Some g else thingMembership grm t)) \<and>
         groups grm' = groups grm \<and> channels grm' = channels grm \<and>
         channelMembership grm' = channelMembership grm"
    using run at other frame
    by (simp add: AssignThing_loop_frame AssignThing_loop_things_other
        AssignThing_loop_things_same AssignThing_loop_membership)
  show "slice_at (things (fst (AssignThing (fst (AssignThing grm g [t])) g [t]))) g =
        slice_at (things grm) g @ [t, t]"
    using ex by (auto simp: AssignThing_def slice_at_def split: option.splits)
qed

theorem AssignThing_appends_witness:
  "map_of (groups repo_assigned) ''G9'' = None \<and>
   AssignThing repo_assigned ''G9'' [''T1''] = (repo_assigned, Some ErrNotFound) \<and>
   map_of (groups repo_assigned) ''G2'' \<noteq> None \<and>
   snd (AssignThing repo_assigned ''G2'' [''T1'']) = None \<and>
   things (fst (AssignThing repo_assigned ''G2'' [''T1''])) ''G2'' = Some [''T1''] \<and>
   things (fst (AssignThing repo_assigned ''G2'' [''T1''])) ''G1'' =
     Some [''T1'', ''T2'', ''T3''] \<and>
   thingMembership (fst (AssignThing repo_assigned ''G2'' [''T1''])) ''T1'' = Some ''G2'' \<and>
   slice_at
     (things (fst (AssignThing (fst (AssignThing repo_assigned ''G2'' [''T1''])) ''G2'' [''T1''])))
     ''G2'' = [''T1'', ''T1'']"
  using AssignThing_appends [of repo_assigned "''G9''" "[''T1'']" "''T1''"]
    AssignThing_appends [of repo_assigned "''G2''" "[''T1'']" "''T1''"]
  by (auto simp: repo_assigned_eq slice_at_def)

subsection \<open>Removing a group clears the memberships of its members\<close>

text \<open>
  Claim C6: take any call of \<open>Remove\<close>, successful or stopped by a missing ID, and any
  group \<open>g\<close> that is stored before the call and no longer stored after it. Then every
  thing in the forward sequence of \<open>g\<close> before the call, and every channel likewise,
  has no recorded membership after the call: \<open>RetrieveThingMembership\<close> and
  \<open>RetrieveChannelMembership\<close> return NotFound for it. In a reachable state the same
  holds for every thing and channel whose reverse-index entry was \<open>g\<close>.
\<close>

theorem Remove_clears_memberships:
  assumes "Remove grm ids = (grm', r)"
    and "map_of (groups grm) g \<noteq> None" and "map_of (groups grm') g = None"
  shows "(\<forall>t\<in>set (slice_at (things grm) g). RetrieveThingMembership grm' t = Inl ErrNotFound) \<and>
     (\<forall>c\<in>set (slice_at (channels grm) g). RetrieveChannelMembership grm' c = Inl ErrNotFound) \<and>
     (reachable grm \<longrightarrow>
        (\<forall>t. thingMembership grm t = Some g \<longrightarrow> RetrieveThingMembership grm' t = Inl ErrNotFound) \<and>
        (\<forall>c. channelMembership grm c = Some g \<longrightarrow>
           RetrieveChannelMembership grm' c = Inl ErrNotFound))"
proof -
  from Remove_cascade [OF assms] have
    fwd: "\<forall>t\<in>set (slice_at (things grm) g). thingMembership grm' t = None"
      "\<forall>c\<in>set (slice_at (channels grm) g). channelMembership grm' c = None"
    by simp_all
  have "thingMembership grm' t = None" if "reachable grm" "thingMembership grm t = Some g" for t
    using reachable_repo_backed [OF that(1)] that(2) fwd(1)
    by (simp add: repo_backed_def backed_def)
  moreover
  have "channelMembership grm' c = None" if "reachable grm" "channelMembership grm c = Some g" for c
    using reachable_repo_backed [OF that(1)] that(2) fwd(2)
    by (simp add: repo_backed_def backed_def)
  ultimately show ?thesis
    using fwd by (simp add: RetrieveThingMembership_def RetrieveChannelMembership_def)
qed

theorem Remove_clears_memberships_witness:
  "Remove repo_full [''G1''] = (fst (Remove repo_full [''G1'']), None) \<and>
   map_of (groups repo_full) ''G1'' \<noteq> None \<and>
   map_of (groups (fst (Remove repo_full [''G1'']))) ''G1'' = None \<and>
   ''T1'' \<in> set (slice_at (things repo_full) ''G1'') \<and>
   RetrieveThingMembership repo_full ''T1'' = Inr ''G1'' \<and>
   RetrieveThingMembership (fst (Remove repo_full [''G1''])) ''T1'' = Inl ErrNotFound \<and>
   ''C2'' \<in> set (slice_at (channels repo_full) ''G1'') \<and>
   RetrieveChannelMembership repo_full ''C2'' = Inr ''G1'' \<and>
   RetrieveChannelMembership (fst (Remove repo_full [''G1''])) ''C2'' = Inl ErrNotFound \<and>
   reachable repo_full \<and> thingMembership repo_full ''T3'' = Some ''G1'' \<and>
   RetrieveThingMembership (fst (Remove repo_full [''G1''])) ''T3'' = Inl ErrNotFound"
proof -
  have run: "Remove repo_full [''G1''] = (fst (Remove repo_full [''G1'']), None)"
    by (simp add: repo_full_eq)
  have before: "map_of (groups repo_full) ''G1'' \<noteq> None"
    and after: "map_of (groups (fst (Remove repo_full [''G1'']))) ''G1'' = None"
    by (simp_all add: repo_full_eq)
  have members: "''T1'' \<in> set (slice_at (things repo_full) ''G1'')"
    "''C2'' \<in> set (slice_at (channels repo_full) ''G1'')"
    "thingMembership repo_full ''T3'' = Some ''G1''"
    "RetrieveThingMembership repo_full ''T1'' = Inr ''G1''"
    "RetrieveChannelMembership repo_full ''C2'' = Inr ''G1''"
    by (simp_all add: repo_full_eq slice_at_def RetrieveThingMembership_def
        RetrieveChannelMembership_def)
  from Remove_clears_memberships [OF run before after] members reachable_repo_full
  have "RetrieveThingMembership (fst (Remove repo_full [''G1''])) ''T1'' = Inl ErrNotFound"
    "RetrieveChannelMembership (fst (Remove repo_full [''G1''])) ''C2'' = Inl ErrNotFound"
    "RetrieveThingMembership (fst (Remove repo_full [''G1''])) ''T3'' = Inl ErrNotFound"
    by blast+
  with run before after members reachable_repo_full show ?thesis
    by blast
qed

subsection \<open>Unassigning things\<close>

text \<open>
  Claim C7, as stated: \<open>UnassignThing\<close> fails with NotFound whenever the group has no
  recorded things at all. The lookup of the group's sequence sits inside the loop over
  the batch, so with an empty batch it never runs: for a stored group without a
  forward-index entry, the call with no thing IDs returns no error.
\<close>

theorem UnassignThing_counterexample:
  "map_of (groups repo_two_groups) ''G2'' \<noteq> None \<and> things repo_two_groups ''G2'' = None \<and>
   UnassignThing repo_two_groups ''G2'' [] = (repo_two_groups, None)"
  by (simp add: repo_two_groups_eq UnassignThing_def)

text \<open>
  Claim C7, amended: \<open>UnassignThing\<close> fails with NotFound, leaving the state as it
  was, if the group is not stored, or if the batch is not empty and the group has no
  forward-index entry for things; with an empty batch and a stored group it returns no
  error and changes nothing. For a thing ID that occurs in the group's sequence, the
  first occurrence is cut out of the sequence and the reverse-index entry of the ID is
  deleted; for a thing ID that does not occur in it, the call returns no error and the
  same state. A batch is processed one ID after the other, each on the state the
  previous one left.
\<close>

theorem UnassignThing_cases:
  "(map_of (groups grm) g = None \<longrightarrow> UnassignThing grm g ts = (grm, Some ErrNotFound)) \<and>
   (map_of (groups grm) g \<noteq> None \<longrightarrow>
      UnassignThing grm g [] = (grm, None) \<and>
      (things grm g = None \<and> ts \<noteq> [] \<longrightarrow> UnassignThing grm g ts = (grm, Some ErrNotFound)) \<and>
      (things grm g = Some (pre @ t # post) \<and> t \<notin> set pre \<longrightarrow>
         UnassignThing grm g [t] =
           (grm\<lparr>things := (things grm)(g \<mapsto> pre @ post),
                thingMembership := (thingMembership grm)(t := None)\<rparr>, None)) \<and>
      (things grm g = Some ths \<and> t \<notin> set ths \<longrightarrow>
         UnassignThing grm g [t] = (grm, None)) \<and>
      UnassignThing grm g (t # ts) =
        (case UnassignThing grm g [t] of
           (grm1, None) \<Rightarrow> UnassignThing grm1 g ts
         | (grm1, Some e) \<Rightarrow> (grm1, Some e)))"
proof (intro conjI impI)
  assume "map_of (groups grm) g = None"
  then show "UnassignThing grm g ts = (grm, Some ErrNotFound)"
    by (simp add: UnassignThing_def)
next
  assume "map_of (groups grm) g \<noteq> None"
  then show "UnassignThing grm g [] = (grm, None)"
    by (auto simp: UnassignThing_def)
next
  assume "map_of (groups grm) g \<noteq> None" and "things grm g = None \<and> ts \<noteq> []"
  then show "UnassignThing grm g ts = (grm, Some ErrNotFound)"
    by (cases ts) (auto simp: UnassignThing_def)
next
  assume "map_of (groups grm) g \<noteq> None" and "things grm g = Some (pre @ t # post) \<and> t \<notin> set pre"
  then show "UnassignThing grm g [t] =
           (grm\<lparr>things := (things grm)(g \<mapsto> pre @ post),
                thingMembership := (thingMembership grm)(t := None)\<rparr>, None)"
    by (auto simp: UnassignThing_def first_index_split cut_at_split)
next
  assume "map_of (groups grm) g \<noteq> None" and "things grm g = Some ths \<and> t \<notin> set ths"
  moreover then have "first_index t ths = None" by (simp add: first_index_None)
  ultimately show "UnassignThing grm g [t] = (grm, None)"
    by (auto simp: UnassignThing_def)
next
  assume ex: "map_of (groups grm) g \<noteq> None"
  show "UnassignThing grm g (t # ts) =
        (case UnassignThing grm g [t] of
           (grm1, None) \<Rightarrow> UnassignThing grm1 g ts
         | (grm1, Some e) \<Rightarrow> (grm1, Some e))"
  proof (cases "things grm g")
    case None
    with ex show ?thesis by (auto simp: UnassignThing_def)
  next
    case (Some ths)
    with ex show ?thesis
      by (cases "first_index t ths") (auto simp: UnassignThing_def)
  qed
qed

theorem UnassignThing_cases_witness:
  "map_of (groups repo_assigned) ''G9'' = None \<and>
   UnassignThing repo_assigned ''G9'' [''T1''] = (repo_assigned, Some ErrNotFound) \<and>
   map_of (groups repo_assigned) ''G2'' \<noteq> None \<and> things repo_assigned ''G2'' = None \<and>
   UnassignThing repo_assigned ''G2'' [''T1''] = (repo_assigned, Some ErrNotFound) \<and>
   map_of (groups repo_assigned) ''G1'' \<noteq> None \<and>
   things repo_assigned ''G1'' = Some ([''T1''] @ ''T2'' # [''T3'']) \<and>
   UnassignThing repo_assigned ''G1'' [''T2''] =
     (repo_assigned\<lparr>things := (things repo_assigned)(''G1'' \<mapsto> [''T1''] @ [''T3'']),
                    thingMembership := (thingMembership repo_assigned)(''T2'' := None)\<rparr>, None) \<and>
   UnassignThing repo_assigned ''G1'' [''T7''] = (repo_assigned, None)"
proof -
  note absent = UnassignThing_cases
      [where grm = repo_assigned and g = "''G9''" and ts = "[''T1'']" and t = "''T1''"
         and pre = "[]" and post = "[]" and ths = "[]"]
  note no_entry = UnassignThing_cases
      [where grm = repo_assigned and g = "''G2''" and ts = "[''T1'']" and t = "''T1''"
         and pre = "[]" and post = "[]" and ths = "[]"]
  note member = UnassignThing_cases
      [where grm = repo_assigned and g = "''G1''" and ts = "[]" and t = "''T2''"
         and pre = "[''T1'']" and post = "[''T3'']" and ths = "[]"]
  note stranger = UnassignThing_cases
      [where grm = repo_assigned and g = "''G1''" and ts = "[]" and t = "''T7''"
         and pre = "[]" and post = "[]" and ths = "[''T1'', ''T2'', ''T3'']"]
  have look: "map_of (groups repo_assigned) ''G9'' = None"
    "map_of (groups repo_assigned) ''G2'' \<noteq> None" "things repo_assigned ''G2'' = None"
    "map_of (groups repo_assigned) ''G1'' \<noteq> None"
    "things repo_assigned ''G1'' = Some ([''T1''] @ ''T2'' # [''T3''])"
    "things repo_assigned ''G1'' = Some [''T1'', ''T2'', ''T3'']"
    by (simp_all add: repo_assigned_eq)
  from absent look(1)
  have 1: "UnassignThing repo_assigned ''G9'' [''T1''] = (repo_assigned, Some ErrNotFound)"
    by blast
  from no_entry look(2,3)
  have 2: "UnassignThing repo_assigned ''G2'' [''T1''] = (repo_assigned, Some ErrNotFound)"
    by blast
  from member look(4,5)
  have 3: "UnassignThing repo_assigned ''G1'' [''T2''] =
     (repo_assigned\<lparr>things := (things repo_assigned)(''G1'' \<mapsto> [''T1''] @ [''T3'']),
                    thingMembership := (thingMembership repo_assigned)(''T2'' := None)\<rparr>, None)"
    by simp
  from stranger look(4,6)
  have 4: "UnassignThing repo_assigned ''G1'' [''T7''] = (repo_assigned, None)"
    by simp
  from look 1 2 3 4 show ?thesis by blast
qed

subsection \<open>Removing a batch stops at the first missing group\<close>

text \<open>
  Claim C8: let the batch start with distinct IDs \<open>pre\<close> that are all stored. If the
  batch is \<open>pre\<close> alone, \<open>Remove\<close> returns no error and all of them are removed. If
  the next ID \<open>bad\<close> is not stored when its turn comes (it never was, or it is one of
  \<open>pre\<close>), \<open>Remove\<close> returns NotFound, whatever follows \<open>bad\<close> in the batch, and the
  state it leaves is the one in which the groups of \<open>pre\<close> are removed: they are gone
  from the store, every other group is still stored, the reverse entries of their
  members are deleted and the forward indices are as before. By \<open>Remove_batch_shape\<close>
  every batch is of one of these two forms.
\<close>

theorem Remove_stops_at_first_missing:
  assumes "distinct pre" and "\<forall>g\<in>set pre. map_of (groups grm) g \<noteq> None"
  shows "\<exists>grm'. Remove grm pre = (grm', None) \<and>
     (map_of (groups grm) bad = None \<or> bad \<in> set pre \<longrightarrow>
        Remove grm (pre @ bad # post) = (grm', Some ErrNotFound)) \<and>
     (\<forall>g. map_of (groups grm') g = (if g \<in> set pre then None else map_of (groups grm) g)) \<and>
     (\<forall>t. thingMembership grm' t =
        (if \<exists>g\<in>set pre. t \<in> set (slice_at (things grm) g) then None else thingMembership grm t)) \<and>
     (\<forall>c. channelMembership grm' c =
        (if \<exists>g\<in>set pre. c \<in> set (slice_at (channels grm) g) then None
         else channelMembership grm c)) \<and>
     things grm' = things grm \<and> channels grm' = channels grm"
proof -
  from Remove_prefix [OF assms] obtain grm' where
    run: "\<forall>rest. Remove grm (pre @ rest) = Remove grm' rest" and
    g: "\<forall>g. map_of (groups grm') g = (if g \<in> set pre then None else map_of (groups grm) g)" and
    rest: "(\<forall>t. thingMembership grm' t =
        (if \<exists>g\<in>set pre. t \<in> set (slice_at (things grm) g) then None else thingMembership grm t)) \<and>
     (\<forall>c. channelMembership grm' c =
        (if \<exists>g\<in>set pre. c \<in> set (slice_at (channels grm) g) then None
         else channelMembership grm c)) \<and>
     things grm' = things grm \<and> channels grm' = channels grm"
    by blast
  from run have "Remove grm (pre @ []) = Remove grm' []" by blast
  then have ok: "Remove grm pre = (grm', None)" by simp
  have "Remove grm (pre @ bad # post) = (grm', Some ErrNotFound)"
    if "map_of (groups grm) bad = None \<or> bad \<in> set pre"
  proof -
    from that g have "map_of (groups grm') bad = None" by auto
    then have "Remove grm' (bad # post) = (grm', Some ErrNotFound)" by simp
    with run show ?thesis by simp
  qed
  with ok g rest show ?thesis by blast
qed

theorem Remove_stops_at_first_missing_witness:
  "distinct [''G1''] \<and> map_of (groups repo_full) ''G1'' \<noteq> None \<and>
   map_of (groups repo_full) ''G9'' = None \<and>
   snd (Remove repo_full ([''G1''] @ ''G9'' # [''G2''])) = Some ErrNotFound \<and>
   map_of (groups (fst (Remove repo_full ([''G1''] @ ''G9'' # [''G2''])))) ''G1'' = None \<and>
   map_of (groups (fst (Remove repo_full ([''G1''] @ ''G9'' # [''G2''])))) ''G2'' = Some group_G2 \<and>
   thingMembership (fst (Remove repo_full ([''G1''] @ ''G9'' # [''G2'']))) ''T1'' = None"
proof -
  have pre: "distinct [''G1'']" "\<forall>g\<in>set [''G1'']. map_of (groups repo_full) g \<noteq> None"
    and bad: "map_of (groups repo_full) ''G9'' = None"
    and keep: "map_of (groups repo_full) ''G2'' = Some group_G2"
    and mem: "''T1'' \<in> set (slice_at (things repo_full) ''G1'')"
    by (simp_all add: repo_full_eq slice_at_def)
  from Remove_stops_at_first_missing [OF pre, of "''G9''" "[''G2'']"] bad
  obtain grm' where
    run: "Remove repo_full ([''G1''] @ ''G9'' # [''G2'']) = (grm', Some ErrNotFound)" and
    g: "\<forall>g. map_of (groups grm') g =
          (if g \<in> set [''G1''] then None else map_of (groups repo_full) g)" and
    t: "\<forall>t. thingMembership grm' t =
          (if \<exists>g\<in>set [''G1'']. t \<in> set (slice_at (things repo_full) g) then None
           else thingMembership repo_full t)"
    by blast
  from g keep have "map_of (groups grm') ''G1'' = None" "map_of (groups grm') ''G2'' = Some group_G2"
    by simp_all
  moreover from t mem have "thingMembership grm' ''T1'' = None"
    by simp
  ultimately show ?thesis
    using pre bad run by simp
qed

subsection \<open>Updating a group\<close>

text \<open>
  Claim C9: when no group is stored under the ID of the input, \<open>Update\<close> returns
  NotFound and the state is unchanged, so no group is created: \<open>RetrieveByID\<close> still
  finds nothing under that ID. When a group is stored
  under it, \<open>Update\<close> stores and returns a record whose Name, Description and Metadata
  are the input's, whose UpdatedAt is the current time and whose ID, OwnerID and
  CreatedAt are those of the stored record; every other group, the set of stored keys
  and the four indices are unchanged.
\<close>

theorem Update_selective_merge:
  "(map_of (groups grm) (ID grp) = None \<longrightarrow>
      Update grm now grp = (grm, Inl ErrNotFound) \<and>
      RetrieveByID (fst (Update grm now grp)) (ID grp) = Inl ErrNotFound) \<and>
   (\<forall>up. map_of (groups grm) (ID grp) = Some up \<longrightarrow>
      (\<exists>grm' up'. Update grm now grp = (grm', Inr up') \<and>
         map_of (groups grm') (ID grp) = Some up' \<and>
         Name up' = Name grp \<and> Description up' = Description grp \<and>
         Metadata up' = Metadata grp \<and> UpdatedAt up' = now \<and>
         ID up' = ID up \<and> OwnerID up' = OwnerID up \<and> CreatedAt up' = CreatedAt up \<and>
         (\<forall>k. k \<noteq> ID grp \<longrightarrow> map_of (groups grm') k = map_of (groups grm) k) \<and>
         map fst (groups grm') = map fst (groups grm) \<and>
         thingMembership grm' = thingMembership grm \<and> things grm' = things grm \<and>
         channelMembership grm' = channelMembership grm \<and> channels grm' = channels grm))"
proof (intro conjI allI impI)
  assume "map_of (groups grm) (ID grp) = None"
  then show "Update grm now grp = (grm, Inl ErrNotFound)"
    and "RetrieveByID (fst (Update grm now grp)) (ID grp) = Inl ErrNotFound"
    by (simp_all add: Update_def RetrieveByID_def)
next
  fix up
  assume found: "map_of (groups grm) (ID grp) = Some up"
  then have key: "ID grp \<in> fst ` set (groups grm)"
    by (metis domI dom_map_of_conv_image_fst)
  define up' where
    "up' = up\<lparr>Name := Name grp, Description := Description grp,
              Metadata := Metadata grp, UpdatedAt := now\<rparr>"
  define grm' where "grm' = grm\<lparr>groups := AList.update (ID grp) up' (groups grm)\<rparr>"
  have run: "Update grm now grp = (grm', Inr up')"
    using found by (simp add: Update_def Let_def up'_def grm'_def)
  have keys: "map fst (groups grm') = map fst (groups grm)"
    using key by (simp add: grm'_def update_keys)
  have look: "map_of (groups grm') = (map_of (groups grm))(ID grp \<mapsto> up')"
    by (simp add: grm'_def update_conv')
  show "\<exists>grm' up'. Update grm now grp = (grm', Inr up') \<and>
         map_of (groups grm') (ID grp) = Some up' \<and>
         Name up' = Name grp \<and> Description up' = Description grp \<and>
         Metadata up' = Metadata grp \<and> UpdatedAt up' = now \<and>
         ID up' = ID up \<and> OwnerID up' = OwnerID up \<and> CreatedAt up' = CreatedAt up \<and>
         (\<forall>k. k \<noteq> ID grp \<longrightarrow> map_of (groups grm') k = map_of (groups grm) k) \<and>
         map fst (groups grm') = map fst (groups grm) \<and>
         thingMembership grm' = thingMembership grm \<and> things grm' = things grm \<and>
         channelMembership grm' = channelMembership grm \<and> channels grm' = channels grm"
    apply (rule exI [of _ grm'], rule exI [of _ up'])
    using run keys look by (simp add: up'_def grm'_def)
qed

theorem Update_selective_merge_witness:
  "map_of (groups repo_two_groups) ''G9'' = None \<and>
   Update repo_two_groups 300 (group_G1\<lparr>ID := ''G9''\<rparr>) = (repo_two_groups, Inl ErrNotFound) \<and>
   map_of (groups repo_two_groups) ''G1'' = Some group_G1 \<and>
   snd (Update repo_two_groups 300
          \<lparr>ID = ''G1'', OwnerID = ''mallory'', Name = ''mill'', Description = ''pumps'',
           Metadata = [(''floor'', ''2'')], CreatedAt = 7, UpdatedAt = 7\<rparr>) =
     Inr \<lparr>ID = ''G1'', OwnerID = ''alice'', Name = ''mill'', Description = ''pumps'',
          Metadata = [(''floor'', ''2'')], CreatedAt = 100, UpdatedAt = 300\<rparr>"
  using Update_selective_merge [of repo_two_groups "group_G1\<lparr>ID := ''G9''\<rparr>" 300]
    Update_selective_merge
      [of repo_two_groups
        "\<lparr>ID = ''G1'', OwnerID = ''mallory'', Name = ''mill'', Description = ''pumps'',
          Metadata = [(''floor'', ''2'')], CreatedAt = 7, UpdatedAt = 7\<rparr>" 300]
  by (auto simp: repo_two_groups_eq group_G1_def Update_def Let_def)

subsection \<open>Removing a group destroys memberships that point elsewhere\<close>

text \<open>
  Claim C10: for every thing \<open>t\<close> and distinct stored groups \<open>g1\<close> and \<open>g2\<close>,
  assigning \<open>t\<close> to \<open>g1\<close> and then to \<open>g2\<close> succeeds and leaves \<open>t\<close> with membership
  \<open>g2\<close>; removing \<open>g1\<close> then succeeds and \<open>RetrieveThingMembership\<close> of \<open>t\<close>
  returns NotFound, although \<open>g2\<close> is still stored and still lists \<open>t\<close>.
\<close>

theorem Remove_destroys_foreign_membership:
  assumes "g1 \<noteq> g2" and "map_of (groups grm) g1 \<noteq> None" and "map_of (groups grm) g2 \<noteq> None"
  shows "\<exists>grm1 grm2 grm3.
     AssignThing grm g1 [t] = (grm1, None) \<and> AssignThing grm1 g2 [t] = (grm2, None) \<and>
     RetrieveThingMembership grm2 t = Inr g2 \<and>
     Remove grm2 [g1] = (grm3, None) \<and>
     RetrieveThingMembership grm3 t = Inl ErrNotFound \<and>
     map_of (groups grm3) g2 = map_of (groups grm) g2 \<and>
     t \<in> set (slice_at (things grm3) g2)"
  using assms
  by (auto simp: AssignThing_def RetrieveThingMembership_def slice_at_def delete_conv'
      delete_each_apply split: option.splits)

theorem Remove_destroys_foreign_membership_witness:
  "''G1'' \<noteq> ''G2'' \<and> map_of (groups repo_two_groups) ''G1'' \<noteq> None \<and>
   map_of (groups repo_two_groups) ''G2'' \<noteq> None \<and>
   (\<exists>grm1 grm2 grm3.
     AssignThing repo_two_groups ''G1'' [''T1''] = (grm1, None) \<and>
     AssignThing grm1 ''G2'' [''T1''] = (grm2, None) \<and>
     RetrieveThingMembership grm2 ''T1'' = Inr ''G2'' \<and>
     Remove grm2 [''G1''] = (grm3, None) \<and>
     RetrieveThingMembership grm3 ''T1'' = Inl ErrNotFound \<and>
     map_of (groups grm3) ''G2'' = Some group_G2 \<and>
     ''T1'' \<in> set (slice_at (things grm3) ''G2''))"
  using Remove_destroys_foreign_membership [of "''G1''" "''G2''" repo_two_groups "''T1''"]
  by (simp add: repo_two_groups_eq)

end
